theory Spec2Isabelle
  imports Complex_Main "HOL-Library.Word"
begin

section \<open>Geiger counter with GPS: the firmware's data and timing\<close>

text \<open>
  The repository holds two variants of one Arduino sketch. Profile A is the sketch with
  GPS baud 4800 and coefficient 0.0027; Profile B is \<^verbatim>\<open>geiger_V26_LGT8F328P.ino\<close>
  (GPS baud 9600, coefficient 0.00347). Both run on 8-bit AVR-class controllers, where
  \<^verbatim>\<open>unsigned long\<close> has 32 bits, \<^verbatim>\<open>int\<close> has 16 bits and
  \<^verbatim>\<open>long\<close> has 32 bits.
\<close>

type_synonym u8 = "8 word"
type_synonym u16 = "16 word"
type_synonym u32 = "32 word"

datatype profile = ProfileA | ProfileB

subsection \<open>Constants of the sketch\<close>

definition LOG_PERIOD :: int where
  "LOG_PERIOD = 15000"

definition NUM_SAMPLES :: int where
  "NUM_SAMPLES = 16"

subsection \<open>The pulse interrupt\<close>

text \<open>
  The globals the interrupt handler touches. \<^verbatim>\<open>impulse\<close> reads
  \<^verbatim>\<open>micros()\<close> (here the argument \<open>t\<close>), and both the subtraction and the
  increment are \<^verbatim>\<open>unsigned long\<close> operations, so they wrap modulo \<open>2 ^ 32\<close>.
  The literal 150 is converted to \<^verbatim>\<open>unsigned long\<close> for the comparison.
\<close>

record isr_state =
  counts :: u32
  lastInterruptTime :: u32

definition impulse :: "u32 \<Rightarrow> 'a isr_state_scheme \<Rightarrow> 'a isr_state_scheme" where
  "impulse t s =
     (if 150 < t - lastInterruptTime s
      then s\<lparr>counts := counts s + 1, lastInterruptTime := t\<rparr>
      else s)"

text \<open>A train of falling edges, each with the timestamp the handler reads.\<close>

fun impulses :: "u32 list \<Rightarrow> 'a isr_state_scheme \<Rightarrow> 'a isr_state_scheme" where
  "impulses [] s = s"
| "impulses (t # ts) s = impulses ts (impulse t s)"

text \<open>
  The debounce rule in the specification's words: a pulse is accepted when the elapsed
  time since the last accepted pulse exceeds 150 microseconds, and then becomes the last
  accepted pulse; any other pulse is discarded. \<open>accepted last ts\<close> lists the accepted
  timestamps of \<open>ts\<close>, where \<open>last\<close> is the timestamp accepted most recently before.
  Elapsed time is what a 32-bit microsecond counter can tell: the difference modulo
  \<open>2 ^ 32\<close>.
\<close>

definition elapsed :: "u32 \<Rightarrow> u32 \<Rightarrow> nat" where
  "elapsed earlier later = unat (later - earlier)"

fun accepted :: "u32 \<Rightarrow> u32 list \<Rightarrow> u32 list" where
  "accepted lst [] = []"
| "accepted lst (t # ts) =
     (if 150 < elapsed lst t then t # accepted t ts else accepted lst ts)"

subsection \<open>Counts per minute\<close>

text \<open>
  \<^verbatim>\<open>unsigned long cpm = counts * (60000 / LOG_PERIOD);\<close> The quotient is computed
  on signed constants (60000 does not fit 16 bits, so it is a \<^verbatim>\<open>long\<close>), then
  converted to \<^verbatim>\<open>unsigned long\<close>; the product wraps modulo \<open>2 ^ 32\<close>.
\<close>

definition cpm_of :: "u32 \<Rightarrow> u32" where
  "cpm_of c = c * word_of_int (60000 div LOG_PERIOD)"

subsection \<open>Decimal text of integers\<close>

text \<open>
  The Arduino \<^verbatim>\<open>String\<close> constructors for integer arguments write the value in
  base 10 without padding; a negative \<^verbatim>\<open>long\<close> gets a leading minus sign.
  \<^verbatim>\<open>substring(n)\<close> drops the first \<open>n\<close> characters.
\<close>

definition digit_char :: "nat \<Rightarrow> char" where
  "digit_char d = ''0123456789'' ! d"

fun String_unsigned :: "nat \<Rightarrow> string" where
  "String_unsigned n =
     (if n < 10 then [digit_char n]
      else String_unsigned (n div 10) @ [digit_char (n mod 10)])"

declare String_unsigned.simps [simp del]

definition String_signed :: "int \<Rightarrow> string" where
  "String_signed i =
     (if i < 0 then CHR ''-'' # String_unsigned (nat (- i)) else String_unsigned (nat i))"

definition substring :: "nat \<Rightarrow> string \<Rightarrow> string" where
  "substring n s = drop n s"

text \<open>\<^verbatim>\<open>println\<close> ends the text with carriage return and line feed.\<close>

definition CRLF :: string where
  "CRLF = [CHR 0x0D, CHR 0x0A]"

definition println :: "string \<Rightarrow> string" where
  "println s = s @ CRLF"

text \<open>
  Two-digit, zero-padded decimal text, as the specification's \<open>DD\<close>, \<open>MM\<close>, \<open>SS\<close>
  describe it.
\<close>

definition pad2 :: "nat \<Rightarrow> string" where
  "pad2 n = [digit_char (n div 10), digit_char (n mod 10)]"

text \<open>Reading decimal text back, to say what an unpadded number is.\<close>

definition digit_val :: "char \<Rightarrow> nat" where
  "digit_val c = of_char c - 48"

definition is_digit :: "char \<Rightarrow> bool" where
  "is_digit c = (48 \<le> (of_char c :: nat) \<and> (of_char c :: nat) \<le> 57)"

definition dec_val :: "string \<Rightarrow> nat" where
  "dec_val s = foldl (\<lambda>a c. 10 * a + digit_val c) 0 s"

definition unpadded :: "string \<Rightarrow> nat \<Rightarrow> bool" where
  "unpadded s n = (s \<noteq> [] \<and> list_all is_digit s \<and> dec_val s = n
                   \<and> (hd s = CHR ''0'' \<longrightarrow> s = ''0''))"

subsection \<open>C integer arithmetic\<close>

text \<open>
  Division and remainder of C truncate towards zero. \<open>int16\<close> and \<open>int32\<close> are the
  two's complement readings to which a value is narrowed.
\<close>

definition c_div :: "int \<Rightarrow> int \<Rightarrow> int" where
  "c_div a b = sgn a * sgn b * (\<bar>a\<bar> div \<bar>b\<bar>)"

definition c_mod :: "int \<Rightarrow> int \<Rightarrow> int" where
  "c_mod a b = a - b * c_div a b"

definition int16 :: "int \<Rightarrow> int" where
  "int16 x = sint (word_of_int x :: 16 word)"

definition int32 :: "int \<Rightarrow> int" where
  "int32 x = sint (word_of_int x :: 32 word)"

subsection \<open>Floating point of the platform\<close>

text \<open>
  The sketch computes doses in \<^verbatim>\<open>float\<close> and prints them with the Arduino core.
  Neither the arithmetic routines nor the printing routines belong to the repository, so
  the model takes them as a parameter: a record of the operations the sketch uses, over
  a type \<open>'f\<close> of float values.
  \<^item> \<open>f_lit\<close>: the value of a decimal literal (\<^verbatim>\<open>0.0027\<close>, \<^verbatim>\<open>100.0\<close>);
  \<^item> \<open>f_of_long\<close>: conversion of an integer to float;
  \<^item> \<open>f_to_long\<close>: the cast of a float to an integer type (truncation);
  \<^item> \<open>String_f x d\<close>: \<^verbatim>\<open>String(x, d)\<close>, fixed notation with \<open>d\<close> decimals;
  \<^item> \<open>print_f x d\<close>: \<^verbatim>\<open>Print::print(x, d)\<close>.
\<close>

record 'f float_ops =
  f_lit :: "rat \<Rightarrow> 'f"
  f_of_long :: "int \<Rightarrow> 'f"
  f_to_long :: "'f \<Rightarrow> int"
  f_add :: "'f \<Rightarrow> 'f \<Rightarrow> 'f"
  f_sub :: "'f \<Rightarrow> 'f \<Rightarrow> 'f"
  f_mul :: "'f \<Rightarrow> 'f \<Rightarrow> 'f"
  f_div :: "'f \<Rightarrow> 'f \<Rightarrow> 'f"
  String_f :: "'f \<Rightarrow> nat \<Rightarrow> string"
  print_f :: "'f \<Rightarrow> nat \<Rightarrow> string"

text \<open>\<^verbatim>\<open>const float uSv_per_CPM\<close> of each sketch.\<close>

definition uSv_per_CPM :: "profile \<Rightarrow> 'f float_ops \<Rightarrow> 'f" where
  "uSv_per_CPM P ops =
     (case P of ProfileA \<Rightarrow> f_lit ops (27 / 10000) | ProfileB \<Rightarrow> f_lit ops (347 / 100000))"

text \<open>
  The macro of \<^verbatim>\<open>Arduino.h\<close>:
  \<^verbatim>\<open>#define round(x) ((x)>=0?(long)((x)+0.5):(long)((x)-0.5))\<close>,
  here at an integer argument, as the sketch uses it.
\<close>

definition round_macro :: "'f float_ops \<Rightarrow> int \<Rightarrow> int" where
  "round_macro ops x =
     (if 0 \<le> x then f_to_long ops (f_add ops (f_of_long ops x) (f_lit ops (1 / 2)))
      else f_to_long ops (f_sub ops (f_of_long ops x) (f_lit ops (1 / 2))))"

subsection \<open>The GPS fix\<close>

text \<open>
  What the sketch reads from the TinyGPS++ object: each group has its own validity flag.
  Day, month, hour, minute and second are \<^verbatim>\<open>uint8_t\<close>, the year is
  \<^verbatim>\<open>uint16_t\<close>, the satellite count \<^verbatim>\<open>uint32_t\<close>, the raw HDOP (hundredths)
  \<^verbatim>\<open>int32_t\<close>; latitude, longitude and altitude are floating point.
\<close>

record 'f gps_fix =
  date_valid :: bool
  day :: u8
  month :: u8
  year :: u16
  time_valid :: bool
  hour :: u8
  minute :: u8
  second :: u8
  location_valid :: bool
  lat :: 'f
  lng :: 'f
  altitude_valid :: bool
  meters :: 'f
  satellites_valid :: bool
  satellites_value :: u32
  hdop_valid :: bool
  hdop_value :: "32 word"

text \<open>
  \<^verbatim>\<open>gps.hdop.value() * 3 / 100\<close> in \<^verbatim>\<open>int32_t\<close>: the product is narrowed to
  32 bits (C leaves an overflowing product undefined), the division truncates.
\<close>

definition hdop_times3_div100 :: "'f gps_fix \<Rightarrow> int" where
  "hdop_times3_div100 g = c_div (int32 (sint (hdop_value g) * 3)) 100"

subsection \<open>Fields of the record, Profile A\<close>

definition data_A :: "'f gps_fix \<Rightarrow> string" where
  "data_A g =
     (if date_valid g
      then String_unsigned (unat (day g)) @ ''.'' @ String_unsigned (unat (month g)) @ ''.''
           @ String_unsigned (unat (year g)) @ ''r.''
      else ''00.00.0000r.'')"

definition czas_A :: "'f gps_fix \<Rightarrow> string" where
  "czas_A g =
     (if time_valid g
      then String_unsigned (unat (hour g)) @ '':''
           @ (if unat (minute g) < 10 then ''0'' else []) @ String_unsigned (unat (minute g)) @ '':''
           @ (if unat (second g) < 10 then ''0'' else []) @ String_unsigned (unat (second g))
      else ''00:00:00'')"

definition wspolrzedne_A :: "'f float_ops \<Rightarrow> 'f gps_fix \<Rightarrow> string" where
  "wspolrzedne_A ops g =
     (if location_valid g
      then String_f ops (lat g) 6 @ ''|'' @ String_f ops (lng g) 6
      else ''0.000000|0.000000'')"

definition wysokosc_A :: "'f float_ops \<Rightarrow> 'f gps_fix \<Rightarrow> string" where
  "wysokosc_A ops g =
     (if altitude_valid g then String_f ops (meters g) 2 else ''0.00'')"

definition satelity :: "'f gps_fix \<Rightarrow> string" where
  "satelity g =
     (if satellites_valid g then String_unsigned (unat (satellites_value g)) else ''0'')"

definition hdop_A :: "'f float_ops \<Rightarrow> 'f gps_fix \<Rightarrow> string" where
  "hdop_A ops g =
     (if hdop_valid g
      then String_f ops (f_div ops (f_of_long ops (sint (hdop_value g))) (f_lit ops 100)) 2
      else ''0.00'')"

definition dokladnosc_A :: "'f float_ops \<Rightarrow> 'f gps_fix \<Rightarrow> string" where
  "dokladnosc_A ops g =
     (if hdop_valid g then String_signed (round_macro ops (hdop_times3_div100 g)) else ''0'')"

definition dane_A :: "'f float_ops \<Rightarrow> 'f gps_fix \<Rightarrow> 'f \<Rightarrow> 'f \<Rightarrow> string" where
  "dane_A ops g uSv average_uSv =
     data_A g @ ''|'' @ czas_A g @ ''|'' @ wspolrzedne_A ops g @ ''|'' @ wysokosc_A ops g @ ''|''
     @ satelity g @ ''|'' @ hdop_A ops g @ ''|'' @ dokladnosc_A ops g @ ''|''
     @ String_f ops uSv 2 @ ''|'' @ String_f ops average_uSv 2"

definition oled_A :: "'f float_ops \<Rightarrow> 'f gps_fix \<Rightarrow> 'f \<Rightarrow> 'f \<Rightarrow> string" where
  "oled_A ops g uSv average_uSv =
     data_A g @ '' '' @ println (czas_A g)
     @ print_f ops (lat g) 6 @ '' '' @ println (print_f ops (lng g) 6)
     @ ''S:'' @ satelity g @ '' H:'' @ hdop_A ops g @ '' D:'' @ dokladnosc_A ops g @ println ''m''
     @ ''uSv:'' @ print_f ops uSv 2 @ '' Avg:'' @ println (print_f ops average_uSv 2)"

subsection \<open>Fields of the record, Profile B\<close>

definition data_B :: "'f gps_fix \<Rightarrow> string" where
  "data_B g =
     (if date_valid g
      then (if unat (day g) < 10 then ''0'' else []) @ String_unsigned (unat (day g)) @ ''.''
           @ (if unat (month g) < 10 then ''0'' else []) @ String_unsigned (unat (month g)) @ ''.''
           @ substring 2 (String_unsigned (unat (year g)))
      else ''00.00.00'')"

definition czas_B :: "'f gps_fix \<Rightarrow> string" where
  "czas_B g =
     (if time_valid g
      then (if unat (hour g) < 10 then ''0'' else []) @ String_unsigned (unat (hour g)) @ '':''
           @ (if unat (minute g) < 10 then ''0'' else []) @ String_unsigned (unat (minute g)) @ '':''
           @ (if unat (second g) < 10 then ''0'' else []) @ String_unsigned (unat (second g))
      else ''00:00:00'')"

definition latitude_B :: "'f float_ops \<Rightarrow> 'f gps_fix \<Rightarrow> string" where
  "latitude_B ops g = (if location_valid g then String_f ops (lat g) 6 else ''00.000000'')"

definition longitude_B :: "'f float_ops \<Rightarrow> 'f gps_fix \<Rightarrow> string" where
  "longitude_B ops g = (if location_valid g then String_f ops (lng g) 6 else ''00.000000'')"

definition wysokosc_B :: "'f float_ops \<Rightarrow> 'f gps_fix \<Rightarrow> string" where
  "wysokosc_B ops g =
     (if altitude_valid g then String_signed (int16 (f_to_long ops (meters g))) else ''0'')"

definition hdop_B :: "'f float_ops \<Rightarrow> 'f gps_fix \<Rightarrow> string" where
  "hdop_B ops g =
     (if hdop_valid g
      then String_f ops (f_div ops (f_of_long ops (sint (hdop_value g))) (f_lit ops 100)) 1
      else ''0'')"

definition dokladnosc_B :: "'f gps_fix \<Rightarrow> string" where
  "dokladnosc_B g =
     (if hdop_valid g then String_signed (int16 (hdop_times3_div100 g)) else ''0'')"

definition dane_B :: "'f float_ops \<Rightarrow> 'f gps_fix \<Rightarrow> 'f \<Rightarrow> 'f \<Rightarrow> string" where
  "dane_B ops g uSv average_uSv =
     data_B g @ ''|'' @ czas_B g @ ''|'' @ latitude_B ops g @ ''|'' @ longitude_B ops g @ ''|''
     @ wysokosc_B ops g @ ''|'' @ satelity g @ ''|'' @ hdop_B ops g @ ''|'' @ dokladnosc_B g @ ''|''
     @ String_f ops uSv 2 @ ''|'' @ String_f ops average_uSv 2"

definition oled_B :: "'f float_ops \<Rightarrow> 'f gps_fix \<Rightarrow> 'f \<Rightarrow> 'f \<Rightarrow> string" where
  "oled_B ops g uSv average_uSv =
     data_B g @ '' '' @ println (czas_B g)
     @ (if location_valid g then String_f ops (lat g) 4 else ''00.0000'') @ '' ''
     @ println (if location_valid g then String_f ops (lng g) 4 else ''00.0000'')
     @ ''S:'' @ satelity g @ '' H:'' @ hdop_B ops g @ '' A:'' @ wysokosc_B ops g @ println ''m''
     @ ''Now:'' @ String_f ops uSv 2 @ '' Avg:'' @ println (String_f ops average_uSv 2)"

definition dane :: "profile \<Rightarrow> 'f float_ops \<Rightarrow> 'f gps_fix \<Rightarrow> 'f \<Rightarrow> 'f \<Rightarrow> string" where
  "dane P ops g uSv average_uSv =
     (case P of ProfileA \<Rightarrow> dane_A ops g uSv average_uSv
              | ProfileB \<Rightarrow> dane_B ops g uSv average_uSv)"

definition oled_frame :: "profile \<Rightarrow> 'f float_ops \<Rightarrow> 'f gps_fix \<Rightarrow> 'f \<Rightarrow> 'f \<Rightarrow> string" where
  "oled_frame P ops g uSv average_uSv =
     (case P of ProfileA \<Rightarrow> oled_A ops g uSv average_uSv
              | ProfileB \<Rightarrow> oled_B ops g uSv average_uSv)"

text \<open>Splitting a line at the pipes, as a reader of the record does.\<close>

fun record_fields :: "string \<Rightarrow> string list" where
  "record_fields [] = [[]]"
| "record_fields (c # cs) =
     (if c = CHR ''|'' then [] # record_fields cs
      else (case record_fields cs of [] \<Rightarrow> [[c]] | f # fs \<Rightarrow> (c # f) # fs))"

subsection \<open>The controller\<close>

text \<open>
  The globals of the sketch, together with what has been written to the serial port
  (\<open>serial\<close>, every byte since power-on), the text on the display since the last
  \<^verbatim>\<open>clearDisplay\<close> (\<open>oled\<close>), and whether \<^verbatim>\<open>setup\<close> ended in its endless loop
  \<^verbatim>\<open>for(;;);\<close> (\<open>halted\<close>), in which case \<^verbatim>\<open>loop\<close> is never entered.
  \<^verbatim>\<open>sampleIndex\<close> is a 16-bit \<^verbatim>\<open>int\<close>; its values never leave 0 to 15, so it is
  kept as an integer without wrap-around.
\<close>

record 'f controller = isr_state +
  previousMillis :: u32
  samples :: "'f list"
  sampleIndex :: int
  total_uSv :: 'f
  serial :: string
  oled :: string
  halted :: bool

definition banner :: string where
  "banner = println ''Czekaj na GPS'' @ println ''Szukam satelity''
            @ println ''Kalibracja Avg 4 min''"

text \<open>
  \<^verbatim>\<open>setup\<close> (here \<open>setup_sketch\<close>); the argument says whether
  \<^verbatim>\<open>display.begin\<close> succeeded. Static storage starts zeroed: sixteen samples of
  value 0, index 0, sum 0.
\<close>

definition setup_sketch :: "'f float_ops \<Rightarrow> bool \<Rightarrow> 'f controller" where
  "setup_sketch ops display_ok =
     \<lparr>counts = 0, lastInterruptTime = 0, previousMillis = 0,
      samples = replicate (nat NUM_SAMPLES) (f_lit ops 0), sampleIndex = 0,
      total_uSv = f_lit ops 0,
      serial = (if display_ok then [] else println ''EROR OLED STOP''),
      oled = (if display_ok then banner else []),
      halted = (\<not> display_ok)\<rparr>"

text \<open>\<^verbatim>\<open>float uSv = cpm * uSv_per_CPM;\<close>\<close>

definition uSv_of :: "profile \<Rightarrow> 'f float_ops \<Rightarrow> u32 \<Rightarrow> 'f" where
  "uSv_of P ops c = f_mul ops (f_of_long ops (uint (cpm_of c))) (uSv_per_CPM P ops)"

text \<open>
  The body of the \<^verbatim>\<open>if\<close> in \<^verbatim>\<open>loop\<close>: one logging cycle. An index outside the
  array would be undefined behaviour of C; the model returns \<open>None\<close> there.
\<close>

definition logging_cycle ::
  "profile \<Rightarrow> 'f float_ops \<Rightarrow> u32 \<Rightarrow> 'f gps_fix \<Rightarrow> 'f controller \<Rightarrow> 'f controller option" where
  "logging_cycle P ops currentMillis g s =
     (let uSv = uSv_of P ops (counts s);
          i = sampleIndex s
      in if i < 0 \<or> int (length (samples s)) \<le> i then None
         else
           let total1 = f_sub ops (total_uSv s) (samples s ! nat i);
               samples1 = (samples s)[nat i := uSv];
               total2 = f_add ops total1 (samples1 ! nat i);
               average_uSv = f_div ops total2 (f_of_long ops NUM_SAMPLES)
           in Some (s\<lparr>previousMillis := currentMillis,
                      samples := samples1,
                      total_uSv := total2,
                      sampleIndex := c_mod (i + 1) NUM_SAMPLES,
                      serial := serial s @ println (dane P ops g uSv average_uSv),
                      oled := oled_frame P ops g uSv average_uSv,
                      counts := 0\<rparr>))"

text \<open>
  \<^verbatim>\<open>if (currentMillis - previousMillis > LOG_PERIOD)\<close>: an
  \<^verbatim>\<open>unsigned long\<close> difference, compared with the constant converted to
  \<^verbatim>\<open>unsigned long\<close>.
\<close>

definition due :: "u32 \<Rightarrow> 'f controller \<Rightarrow> bool" where
  "due currentMillis s = (word_of_int LOG_PERIOD < currentMillis - previousMillis s)"

definition loop ::
  "profile \<Rightarrow> 'f float_ops \<Rightarrow> u32 \<Rightarrow> 'f gps_fix \<Rightarrow> 'f controller \<Rightarrow> 'f controller option" where
  "loop P ops currentMillis g s =
     (if due currentMillis s then logging_cycle P ops currentMillis g s else Some s)"

text \<open>
  What happens to the controller after \<^verbatim>\<open>setup\<close>: a falling edge runs the interrupt
  handler with the microsecond clock's reading; a pass of \<^verbatim>\<open>loop\<close> sees the
  millisecond clock's reading and the fix decoded so far. A halted controller never
  enters \<^verbatim>\<open>loop\<close>, but its interrupt stays attached. Interrupts are taken between
  passes of the loop.
\<close>

datatype 'f event = Pulse u32 | Loop u32 "'f gps_fix"

fun step :: "profile \<Rightarrow> 'f float_ops \<Rightarrow> 'f event \<Rightarrow> 'f controller \<Rightarrow> 'f controller option" where
  "step P ops (Pulse t) s = Some (impulse t s)"
| "step P ops (Loop now g) s = (if halted s then Some s else loop P ops now g s)"

fun run :: "profile \<Rightarrow> 'f float_ops \<Rightarrow> 'f event list \<Rightarrow> 'f controller \<Rightarrow> 'f controller option" where
  "run P ops [] s = Some s"
| "run P ops (e # es) s =
     (case step P ops e s of None \<Rightarrow> None | Some s1 \<Rightarrow> run P ops es s1)"

text \<open>Whether an event makes the controller perform a logging cycle.\<close>

fun logs :: "'f event \<Rightarrow> 'f controller \<Rightarrow> bool" where
  "logs (Pulse t) s = False"
| "logs (Loop now g) s = (\<not> halted s \<and> due now s)"

text \<open>The dose samples that the logging cycles of a run computed, oldest first.\<close>

fun doses :: "profile \<Rightarrow> 'f float_ops \<Rightarrow> 'f event list \<Rightarrow> 'f controller \<Rightarrow> 'f list" where
  "doses P ops [] s = []"
| "doses P ops (e # es) s =
     (case step P ops e s of
        None \<Rightarrow> []
      | Some s1 \<Rightarrow> (if logs e s then [uSv_of P ops (counts s)] else []) @ doses P ops es s1)"

subsection \<open>Two instances of the floating point\<close>

text \<open>
  Exact arithmetic on rationals, and arithmetic rounded to the IEEE 754 binary32 format
  (24 significant bits, round to nearest, ties to even, gradual underflow; overflow,
  infinities and NaN are left out). On AVR both \<^verbatim>\<open>float\<close> and \<^verbatim>\<open>double\<close> are
  binary32. \<^verbatim>\<open>String(x, d)\<close> is taken as the value rounded to \<open>d\<close> decimals, half
  away from zero (\<open>fixed_text\<close>); \<^verbatim>\<open>Print::print(x, d)\<close> of the binary32 instance
  follows the digit loop of the core's \<^verbatim>\<open>printFloat\<close>.
\<close>

definition pow2 :: "int \<Rightarrow> rat" where
  "pow2 e = (if 0 \<le> e then 2 ^ nat e else 1 / 2 ^ nat (- e))"

text \<open>
  For \<open>x \<noteq> 0\<close>, \<open>ilog2 x\<close> is the \<open>e\<close> with \<open>2 ^ e \<le> \<bar>x\<bar> < 2 ^ (e + 1)\<close>, found by
  halving or doubling.
\<close>

function ilog2_up :: "rat \<Rightarrow> int" where
  "ilog2_up x = (if x < 2 then 0 else ilog2_up (x / 2) + 1)"
  by pat_completeness auto
termination
proof (relation "measure (\<lambda>x. nat \<lfloor>x\<rfloor>)")
  show "wf (measure (\<lambda>x. nat \<lfloor>x\<rfloor>))" by simp
next
  fix x :: rat
  assume "\<not> x < 2"
  then have "x / 2 \<le> x - 1" by simp
  then have "\<lfloor>x / 2\<rfloor> \<le> \<lfloor>x - 1\<rfloor>" by (rule floor_mono)
  moreover have "1 \<le> \<lfloor>x\<rfloor>" using \<open>\<not> x < 2\<close> by (simp add: le_floor_iff)
  ultimately show "(x / 2, x) \<in> measure (\<lambda>x. nat \<lfloor>x\<rfloor>)" by simp
qed

function ilog2_down :: "rat \<Rightarrow> int" where
  "ilog2_down x = (if x \<le> 0 \<or> 1 \<le> x then 0 else ilog2_down (2 * x) - 1)"
  by pat_completeness auto
termination
proof (relation "measure (\<lambda>x. nat \<lfloor>1 / x\<rfloor>)")
  show "wf (measure (\<lambda>x. nat \<lfloor>1 / x\<rfloor>))" by simp
next
  fix x :: rat
  assume "\<not> (x \<le> 0 \<or> 1 \<le> x)"
  then have "0 < x" "x < 1" by simp_all
  then have "1 \<le> 1 / x" by simp
  then have f: "1 \<le> \<lfloor>1 / x\<rfloor>" by (simp add: le_floor_iff)
  define y where "y = 1 / x"
  have "y < of_int \<lfloor>y\<rfloor> + 1"
    using floor_correct [of y] by simp
  moreover have "(1 :: rat) \<le> of_int \<lfloor>y\<rfloor>" using f by (simp add: y_def)
  ultimately have "y / 2 < of_int \<lfloor>y\<rfloor>" by linarith
  then have "\<lfloor>y / 2\<rfloor> < \<lfloor>y\<rfloor>" by (simp add: floor_less_iff)
  moreover have "1 / (2 * x) = y / 2" by (simp add: y_def)
  ultimately have "\<lfloor>1 / (2 * x)\<rfloor> < \<lfloor>y\<rfloor>" by (simp only:)
  then have "\<lfloor>1 / (2 * x)\<rfloor> < \<lfloor>1 / x\<rfloor>" by (simp only: y_def)
  then show "(2 * x, x) \<in> measure (\<lambda>x. nat \<lfloor>1 / x\<rfloor>)" using f by simp
qed

declare ilog2_up.simps [simp del] ilog2_down.simps [simp del]

definition ilog2 :: "rat \<Rightarrow> int" where
  "ilog2 x = (if 1 \<le> \<bar>x\<bar> then ilog2_up \<bar>x\<bar> else ilog2_down \<bar>x\<bar>)"

definition round_even :: "rat \<Rightarrow> int" where
  "round_even m =
     (let f = \<lfloor>m\<rfloor>; r = m - of_int f
      in if r < 1 / 2 then f else if 1 / 2 < r then f + 1
         else if even f then f else f + 1)"

definition round32 :: "rat \<Rightarrow> rat" where
  "round32 x =
     (if x = 0 then 0
      else let q = pow2 (max (ilog2 x) (- 126) - 23)
           in of_int (round_even (x / q)) * q)"

definition trunc0 :: "rat \<Rightarrow> int" where
  "trunc0 x = (if 0 \<le> x then \<lfloor>x\<rfloor> else \<lceil>x\<rceil>)"

definition pad_left :: "nat \<Rightarrow> string \<Rightarrow> string" where
  "pad_left d s = replicate (d - length s) CHR ''0'' @ s"

definition fixed_text :: "rat \<Rightarrow> nat \<Rightarrow> string" where
  "fixed_text x d =
     (let n = nat \<lfloor>\<bar>x\<bar> * 10 ^ d + 1 / 2\<rfloor>
      in (if x < 0 then ''-'' else []) @ String_unsigned (n div 10 ^ d)
         @ (if d = 0 then [] else ''.'' @ pad_left d (String_unsigned (n mod 10 ^ d))))"

text \<open>
  \<^verbatim>\<open>Print::printFloat\<close> of the AVR core, computed in binary32: the rounding constant
  is 0.5 divided by 10 once per digit and added to the number, the integer part is
  printed, and each decimal is the integer part of the remainder times 10. The branches
  for \<^verbatim>\<open>nan\<close>, \<^verbatim>\<open>inf\<close> and \<^verbatim>\<open>ovf\<close> are left out.
\<close>

fun print_rounding :: "nat \<Rightarrow> rat" where
  "print_rounding 0 = 1 / 2"
| "print_rounding (Suc i) = round32 (print_rounding i / round32 10)"

fun print_digits :: "nat \<Rightarrow> rat \<Rightarrow> string" where
  "print_digits 0 remainder = []"
| "print_digits (Suc digits) remainder =
     (let r10 = round32 (remainder * round32 10);
          toPrint = trunc0 r10
      in String_unsigned (nat toPrint)
         @ print_digits digits (round32 (r10 - round32 (of_int toPrint))))"

definition printFloat :: "rat \<Rightarrow> nat \<Rightarrow> string" where
  "printFloat number digits =
     (let n1 = round32 (\<bar>number\<bar> + print_rounding digits);
          int_part = trunc0 n1;
          remainder = round32 (n1 - round32 (of_int int_part))
      in (if number < 0 then ''-'' else []) @ String_unsigned (nat int_part)
         @ (if 0 < digits then ''.'' else []) @ print_digits digits remainder)"

definition exact_ops :: "rat float_ops" where
  "exact_ops =
     \<lparr>f_lit = (\<lambda>x. x), f_of_long = of_int, f_to_long = trunc0,
      f_add = (\<lambda>a b. a + b), f_sub = (\<lambda>a b. a - b),
      f_mul = (\<lambda>a b. a * b), f_div = (\<lambda>a b. a / b),
      String_f = fixed_text, print_f = fixed_text\<rparr>"

definition binary32_ops :: "rat float_ops" where
  "binary32_ops =
     \<lparr>f_lit = round32, f_of_long = (\<lambda>i. round32 (of_int i)), f_to_long = trunc0,
      f_add = (\<lambda>a b. round32 (a + b)), f_sub = (\<lambda>a b. round32 (a - b)),
      f_mul = (\<lambda>a b. round32 (a * b)), f_div = (\<lambda>a b. round32 (a / b)),
      String_f = fixed_text, print_f = printFloat\<rparr>"

text \<open>
  The rounding error that one logging cycle adds to the running sum, under a reading
  \<open>v\<close> of float values as rationals: what the subtraction returned beyond the exact
  difference of its operands, plus what the addition returned beyond their exact sum.
  \<open>rounding_error\<close> adds these up over the logging cycles of a run.
\<close>

definition cycle_error :: "('f \<Rightarrow> rat) \<Rightarrow> profile \<Rightarrow> 'f float_ops \<Rightarrow> 'f controller \<Rightarrow> rat" where
  "cycle_error v P ops s =
     (let old = samples s ! nat (sampleIndex s);
          total1 = f_sub ops (total_uSv s) old;
          uSv = uSv_of P ops (counts s)
      in (v total1 - (v (total_uSv s) - v old))
         + (v (f_add ops total1 uSv) - (v total1 + v uSv)))"

fun rounding_error ::
  "('f \<Rightarrow> rat) \<Rightarrow> profile \<Rightarrow> 'f float_ops \<Rightarrow> 'f event list \<Rightarrow> 'f controller \<Rightarrow> rat" where
  "rounding_error v P ops [] s = 0"
| "rounding_error v P ops (e # es) s =
     (case step P ops e s of
        None \<Rightarrow> 0
      | Some s1 \<Rightarrow> (if logs e s then cycle_error v P ops s else 0)
                   + rounding_error v P ops es s1)"

text \<open>
  A fix in which nothing is valid yet, and the fix of the example frame in the README
  (24.11.2025, 14:30:25, 8 satellites, HDOP 1.25).
\<close>

definition no_fix :: "'f float_ops \<Rightarrow> 'f gps_fix" where
  "no_fix ops =
     \<lparr>date_valid = False, day = 0, month = 0, year = 0,
      time_valid = False, hour = 0, minute = 0, second = 0,
      location_valid = False, lat = f_lit ops 0, lng = f_lit ops 0,
      altitude_valid = False, meters = f_lit ops 0,
      satellites_valid = False, satellites_value = 0,
      hdop_valid = False, hdop_value = 0\<rparr>"

definition readme_fix :: "'f float_ops \<Rightarrow> 'f gps_fix" where
  "readme_fix ops =
     \<lparr>date_valid = True, day = 24, month = 11, year = 2025,
      time_valid = True, hour = 14, minute = 30, second = 25,
      location_valid = True, lat = f_lit ops (5222977 / 100000),
      lng = f_lit ops (2101178 / 100000),
      altitude_valid = True, meters = f_lit ops (11345 / 100),
      satellites_valid = True, satellites_value = 8,
      hdop_valid = True, hdop_value = 125\<rparr>"

text \<open>The index addresses one of the sixteen slots.\<close>

definition window_ok :: "'f controller \<Rightarrow> bool" where
  "window_ok s = (0 \<le> sampleIndex s \<and> sampleIndex s \<le> 15 \<and> length (samples s) = 16)"

text \<open>
  The sixteen most recent of the dose samples \<open>xs\<close> (oldest first), with zeros standing
  for the samples not yet taken.
\<close>

definition recent :: "'f float_ops \<Rightarrow> 'f list \<Rightarrow> 'f list" where
  "recent ops xs = drop (length xs) (replicate 16 (f_lit ops 0) @ xs)"

text \<open>
  Seventeen logging cycles without a fix: two pulses before the first, one pulse before
  the second, none afterwards.
\<close>

definition drift_events :: "rat event list" where
  "drift_events =
     [Pulse 1000, Pulse 2000000, Loop 15001 (no_fix binary32_ops),
      Pulse 16000000, Loop 30002 (no_fix binary32_ops)]
     @ map (\<lambda>t. Loop t (no_fix binary32_ops))
         [45003, 60004, 75005, 90006, 105007, 120008, 135009, 150010, 165011, 180012,
          195013, 210014, 225015, 240016, 255017]"

text \<open>
  Eighteen logging cycles without a fix: one pulse before the first and one before the
  eighteenth, none in between.
\<close>

definition steady_events :: "rat event list" where
  "steady_events =
     [Pulse 1000, Loop 15001 (no_fix binary32_ops)]
     @ map (\<lambda>t. Loop t (no_fix binary32_ops))
         [30002, 45003, 60004, 75005, 90006, 105007, 120008, 135009, 150010, 165011,
          180012, 195013, 210014, 225015, 240016, 255017]
     @ [Pulse 260000000, Loop 270018 (no_fix binary32_ops)]"

section \<open>Properties\<close>

subsection \<open>Debounce\<close>

lemma impulse_accept:
  "150 < elapsed (lastInterruptTime s) t \<Longrightarrow>
     impulse t s = s\<lparr>counts := counts s + 1, lastInterruptTime := t\<rparr>"
  by (simp add: impulse_def elapsed_def word_less_nat_alt)

lemma impulse_discard:
  "\<not> 150 < elapsed (lastInterruptTime s) t \<Longrightarrow> impulse t s = s"
  by (simp add: impulse_def elapsed_def word_less_nat_alt)

lemma impulses_accepted:
  "counts (impulses ts s) = counts s + of_nat (length (accepted (lastInterruptTime s) ts))
   \<and> lastInterruptTime (impulses ts s) = last (lastInterruptTime s # accepted (lastInterruptTime s) ts)"
proof (induction ts arbitrary: s)
  case Nil
  show ?case by simp
next
  case (Cons t ts)
  show ?case
  proof (cases "150 < elapsed (lastInterruptTime s) t")
    case True
    then show ?thesis
      using Cons.IH [of "s\<lparr>counts := counts s + 1, lastInterruptTime := t\<rparr>"]
      by (simp add: impulse_accept)
  next
    case False
    then show ?thesis
      using Cons.IH [of s] by (simp add: impulse_discard)
  qed
qed

lemma two_pulses:
  assumes "150 < elapsed (lastInterruptTime s) t"
  shows "counts (impulses [t, t + 100] s) = counts s + 1"
    and "counts (impulses [t, t + 200] s) = counts s + 2"
  using assms by (simp_all add: impulse_def elapsed_def word_less_nat_alt)

text \<open>
  Claim C2. The interrupt handler counts a falling edge exactly when the time elapsed
  since the last accepted edge exceeds 150 microseconds, and otherwise leaves the state
  as it was. Over any train of edges the counter grows by the number of edges the
  debounce rule accepts, and \<open>lastInterruptTime\<close> is the last accepted edge. After an
  accepted edge, a second edge 100 microseconds later is not counted, one 200
  microseconds later is.
\<close>

theorem impulse_debounce:
  "impulse t s = (if 150 < elapsed (lastInterruptTime s) t
                  then s\<lparr>counts := counts s + 1, lastInterruptTime := t\<rparr> else s)
   \<and> counts (impulses ts s) = counts s + of_nat (length (accepted (lastInterruptTime s) ts))
   \<and> lastInterruptTime (impulses ts s) = last (lastInterruptTime s # accepted (lastInterruptTime s) ts)
   \<and> (150 < elapsed (lastInterruptTime s) t \<longrightarrow>
        counts (impulses [t, t + 100] s) = counts s + 1
        \<and> counts (impulses [t, t + 200] s) = counts s + 2)"
  using impulses_accepted [of ts s] two_pulses [of s t]
  by (simp add: impulse_accept impulse_discard)

theorem impulse_debounce_witness:
  "counts (impulses [1000, 1100] \<lparr>counts = 0, lastInterruptTime = 0\<rparr>) = 1
   \<and> counts (impulses [1000, 1200] \<lparr>counts = 0, lastInterruptTime = 0\<rparr>) = 2"
proof -
  have h: "150 < elapsed (lastInterruptTime \<lparr>counts = 0, lastInterruptTime = 0\<rparr>) 1000"
    by (simp add: elapsed_def)
  from impulse_debounce [of 1000 "\<lparr>counts = 0, lastInterruptTime = 0\<rparr>" "[]"] h
  have "counts (impulses [1000, 1000 + 100] \<lparr>counts = 0, lastInterruptTime = 0\<rparr>)
          = counts \<lparr>counts = 0, lastInterruptTime = 0\<rparr> + 1
        \<and> counts (impulses [1000, 1000 + 200] \<lparr>counts = 0, lastInterruptTime = 0\<rparr>)
          = counts \<lparr>counts = 0, lastInterruptTime = 0\<rparr> + 2"
    by blast
  then show ?thesis by simp
qed

subsection \<open>Counts per minute\<close>

lemma length_accepted: "length (accepted l ts) \<le> length ts"
  by (induction ts arbitrary: l) (auto simp: le_SucI)

lemma cpm_of_4: "cpm_of c = c * 4"
  by (simp add: cpm_of_def LOG_PERIOD_def)

lemma unat_cpm_of: "unat c < 2 ^ 30 \<Longrightarrow> unat (cpm_of c) = unat c * 4"
  by (simp add: cpm_of_4 unat_word_ariths)

lemma cpm_of_pulses:
  assumes "length ts < 2 ^ 30"
  shows "unat (cpm_of (counts (impulses ts (s\<lparr>counts := 0\<rparr>))))
         = 4 * length (accepted (lastInterruptTime s) ts)"
proof -
  let ?n = "length (accepted (lastInterruptTime s) ts)"
  have n: "?n < 2 ^ 30"
    using length_accepted [of "lastInterruptTime s" ts] assms by simp
  have c: "counts (impulses ts (s\<lparr>counts := 0\<rparr>)) = of_nat ?n"
    using impulses_accepted [of ts "s\<lparr>counts := 0\<rparr>"] by simp
  have "unat (of_nat ?n :: u32) = ?n"
    using n by (simp add: unat_of_nat)
  then show ?thesis
    using n c unat_cpm_of [of "of_nat ?n"] by simp
qed

text \<open>
  Claim C3. The computed CPM is the pulse count times 4: always as 32-bit unsigned
  values, and as numbers whenever the count is below \<open>2 ^ 30\<close>, which every count
  accumulated from zero by fewer than \<open>2 ^ 30\<close> edges is; then the CPM is four times
  the number of accepted edges.
\<close>

theorem cpm_times_four:
  "cpm_of c = c * 4
   \<and> (unat c < 2 ^ 30 \<longrightarrow> unat (cpm_of c) = unat c * 4)
   \<and> (length ts < 2 ^ 30 \<longrightarrow>
        unat (cpm_of (counts (impulses ts (s\<lparr>counts := 0\<rparr>))))
        = 4 * length (accepted (lastInterruptTime s) ts))"
  using cpm_of_4 unat_cpm_of cpm_of_pulses by blast

theorem cpm_times_four_witness:
  "unat (37 :: u32) < 2 ^ 30 \<and> unat (cpm_of 37) = 148
   \<and> length [1000, 1100, 2000 :: u32] < 2 ^ 30
   \<and> unat (cpm_of (counts (impulses [1000, 1100, 2000]
         (\<lparr>counts = 5, lastInterruptTime = 0\<rparr>\<lparr>counts := 0\<rparr>)))) = 8"
proof -
  have h1: "unat (37 :: u32) < 2 ^ 30" by simp
  have h2: "length [1000, 1100, 2000 :: u32] < 2 ^ 30" by simp
  from cpm_times_four [of 37 "[1000, 1100, 2000]" "\<lparr>counts = 5, lastInterruptTime = 0\<rparr>"] h1 h2
  have "unat (cpm_of 37) = unat (37 :: u32) * 4
        \<and> unat (cpm_of (counts (impulses [1000, 1100, 2000]
             (\<lparr>counts = 5, lastInterruptTime = 0\<rparr>\<lparr>counts := 0\<rparr>))))
          = 4 * length (accepted (lastInterruptTime \<lparr>counts = 5, lastInterruptTime = 0\<rparr>)
                          [1000, 1100, 2000])"
    by blast
  then show ?thesis by (simp add: elapsed_def)
qed

subsection \<open>Elapsed time across a wrap of the tick counter\<close>

lemma word_of_nat_diff_elapsed:
  assumes "T1 \<le> T2" "T2 - T1 < 2 ^ 32"
  shows "elapsed (of_nat T1) (of_nat T2) = T2 - T1"
proof -
  have "(of_nat T2 :: u32) - of_nat T1 = of_nat (T2 - T1)"
    using assms(1) by (simp add: of_nat_diff)
  then show ?thesis
    using assms(2) by (simp add: elapsed_def unat_of_nat)
qed

lemma due_elapsed: "due now s \<longleftrightarrow> 15000 < elapsed (previousMillis s) now"
  by (simp add: due_def elapsed_def LOG_PERIOD_def word_less_nat_alt)

text \<open>
  Claim C10. Let \<open>T1 \<le> T2\<close> be two true tick counts less than \<open>2 ^ 32\<close> ticks apart,
  of which the hardware counter shows the low 32 bits. The unsigned difference of the
  two readings is the true separation, so the logging-interval check compares the true
  separation with 15000 and the debounce check compares it with 150, also when the
  counter wrapped between the readings.
\<close>

theorem elapsed_wraparound:
  "T1 \<le> T2 \<Longrightarrow> T2 - T1 < 2 ^ 32 \<Longrightarrow>
     elapsed (of_nat T1) (of_nat T2) = T2 - T1
     \<and> (due (of_nat T2) (s\<lparr>previousMillis := of_nat T1\<rparr>) \<longleftrightarrow> 15000 < T2 - T1)
     \<and> counts (impulse (of_nat T2) (i\<lparr>lastInterruptTime := of_nat T1\<rparr>))
         = (if 150 < T2 - T1 then counts i + 1 else counts i)"
  using word_of_nat_diff_elapsed [of T1 T2]
  by (simp add: due_elapsed impulse_accept impulse_discard)

theorem elapsed_wraparound_witness:
  "(4294967196 :: nat) \<le> 4294967396 \<and> (4294967396 :: nat) - 4294967196 < 2 ^ 32
   \<and> elapsed 4294967196 100 = 200
   \<and> counts (impulse 100 \<lparr>counts = 7, lastInterruptTime = 4294967196\<rparr>) = 8"
proof -
  have h1: "(4294967196 :: nat) \<le> 4294967396" by simp
  have h2: "(4294967396 :: nat) - 4294967196 < 2 ^ 32" by simp
  have w: "(of_nat 4294967396 :: u32) = 100" "(of_nat 4294967196 :: u32) = 4294967196"
    by simp_all
  from elapsed_wraparound [OF h1 h2, of "setup_sketch exact_ops True"
      "\<lparr>counts = 7, lastInterruptTime = 0\<rparr>"]
  have "elapsed 4294967196 100 = 4294967396 - 4294967196
        \<and> counts (impulse 100 (\<lparr>counts = 7, lastInterruptTime = 0\<rparr>
              \<lparr>lastInterruptTime := 4294967196\<rparr>))
          = (if 150 < (4294967396 :: nat) - 4294967196
             then counts \<lparr>counts = 7, lastInterruptTime = 0\<rparr> + 1
             else counts \<lparr>counts = 7, lastInterruptTime = 0\<rparr>)"
    unfolding w by blast
  then show ?thesis by simp
qed

subsection \<open>The sample window stays in bounds\<close>

lemma c_mod_nonneg: "0 \<le> a \<Longrightarrow> 0 < b \<Longrightarrow> c_mod a b = a mod b"
  by (simp add: c_mod_def c_div_def sgn_if minus_mult_div_eq_mod)

lemma window_ok_setup: "window_ok (setup_sketch ops ok)"
  by (simp add: window_ok_def setup_sketch_def NUM_SAMPLES_def)

lemma window_ok_impulse: "window_ok (impulse t s) = window_ok s"
  by (simp add: window_ok_def impulse_def)

lemma logging_cycle_Some:
  assumes "window_ok s"
  shows "logging_cycle P ops now g s =
     Some (s\<lparr>previousMillis := now,
             samples := (samples s)[nat (sampleIndex s) := uSv_of P ops (counts s)],
             total_uSv := f_add ops (f_sub ops (total_uSv s) (samples s ! nat (sampleIndex s)))
                            (uSv_of P ops (counts s)),
             sampleIndex := (sampleIndex s + 1) mod 16,
             serial := serial s @ println (dane P ops g (uSv_of P ops (counts s))
                (f_div ops (f_add ops (f_sub ops (total_uSv s) (samples s ! nat (sampleIndex s)))
                              (uSv_of P ops (counts s))) (f_of_long ops 16))),
             oled := oled_frame P ops g (uSv_of P ops (counts s))
                (f_div ops (f_add ops (f_sub ops (total_uSv s) (samples s ! nat (sampleIndex s)))
                              (uSv_of P ops (counts s))) (f_of_long ops 16)),
             counts := 0\<rparr>)"
proof -
  have "nat (sampleIndex s) < length (samples s)"
    using assms by (auto simp: window_ok_def)
  then show ?thesis
    using assms
    by (simp add: logging_cycle_def window_ok_def Let_def NUM_SAMPLES_def c_mod_nonneg)
qed

lemma window_ok_logging_cycle:
  assumes "window_ok s"
  shows "\<exists>s1. logging_cycle P ops now g s = Some s1 \<and> window_ok s1"
proof -
  have "0 \<le> (sampleIndex s + 1) mod 16" "(sampleIndex s + 1) mod 16 \<le> 15"
    by simp_all
  then show ?thesis
    using assms by (simp add: logging_cycle_Some [OF assms] window_ok_def)
qed

lemma window_ok_step:
  assumes "window_ok s"
  shows "\<exists>s1. step P ops e s = Some s1 \<and> window_ok s1"
proof (cases e)
  case (Pulse t)
  then show ?thesis using assms by (simp add: window_ok_impulse)
next
  case (Loop now g)
  then show ?thesis
    using assms window_ok_logging_cycle [OF assms, of P ops now g]
    by (auto simp: loop_def)
qed

lemma window_ok_run:
  "window_ok s \<Longrightarrow> \<exists>s1. run P ops es s = Some s1 \<and> window_ok s1"
proof (induction es arbitrary: s)
  case Nil
  then show ?case by simp
next
  case (Cons e es)
  from window_ok_step [OF Cons.prems, of P ops e]
  obtain s1 where s1: "step P ops e s = Some s1" "window_ok s1" by blast
  from Cons.IH [OF s1(2)] show ?case using s1(1) by simp
qed

text \<open>
  Claim C9. Whatever happens after \<^verbatim>\<open>setup\<close>, the controller never reads or writes
  outside the array (the run never ends in \<open>None\<close>), the write index lies between 0
  and 15 inclusive, and the array keeps its sixteen slots.
\<close>

theorem sampleIndex_in_bounds:
  "\<exists>s. run P ops es (setup_sketch ops ok) = Some s
       \<and> 0 \<le> sampleIndex s \<and> sampleIndex s \<le> 15 \<and> length (samples s) = 16"
  using window_ok_run [OF window_ok_setup, where P = P and ops = ops and es = es and ok1 = ok]
  by (simp add: window_ok_def)

theorem sampleIndex_in_bounds_witness:
  "\<exists>s. run ProfileB exact_ops [Pulse 1000, Loop 15001 (no_fix exact_ops), Loop 30002 (no_fix exact_ops)]
          (setup_sketch exact_ops True) = Some s
       \<and> 0 \<le> sampleIndex s \<and> sampleIndex s \<le> 15 \<and> length (samples s) = 16"
  by (rule sampleIndex_in_bounds)

subsection \<open>Failure of the display\<close>

lemma halted_step:
  assumes "halted s"
  shows "\<exists>s1. step P ops e s = Some s1 \<and> halted s1 \<and> serial s1 = serial s"
  using assms by (cases e) (simp_all add: impulse_def)

lemma halted_run:
  "halted s \<Longrightarrow> \<exists>s1. run P ops es s = Some s1 \<and> halted s1 \<and> serial s1 = serial s"
proof (induction es arbitrary: s)
  case Nil
  then show ?case by simp
next
  case (Cons e es)
  from halted_step [OF Cons.prems, of P ops e]
  obtain s1 where s1: "step P ops e s = Some s1" "halted s1" "serial s1 = serial s" by blast
  from Cons.IH [OF s1(2)] show ?case using s1(1) s1(3) by simp
qed

text \<open>
  Claim C6. When \<^verbatim>\<open>display.begin\<close> fails, \<^verbatim>\<open>setup\<close> writes the text
  \<^verbatim>\<open>EROR OLED STOP\<close>, ended by carriage return and line feed, to the serial port and
  halts; whatever happens afterwards, the controller stays halted and everything ever
  written to the serial port is that one line, so the diagnostic is emitted exactly once
  and no record is ever emitted.
\<close>

theorem display_failure_halts:
  "serial (setup_sketch ops False) = ''EROR OLED STOP'' @ [CHR 0x0D, CHR 0x0A]
   \<and> halted (setup_sketch ops False)
   \<and> (\<exists>s. run P ops es (setup_sketch ops False) = Some s
          \<and> halted s \<and> serial s = ''EROR OLED STOP'' @ [CHR 0x0D, CHR 0x0A])"
proof -
  have h: "halted (setup_sketch ops False)"
    and s: "serial (setup_sketch ops False) = ''EROR OLED STOP'' @ [CHR 0x0D, CHR 0x0A]"
    by (simp_all add: setup_sketch_def println_def CRLF_def)
  from halted_run [OF h, of P ops es] show ?thesis using h s by simp
qed

theorem display_failure_halts_witness:
  "\<exists>s. run ProfileA binary32_ops
          [Pulse 1000, Loop 15001 (no_fix binary32_ops), Pulse 16000000,
           Loop 30002 (readme_fix binary32_ops)]
          (setup_sketch binary32_ops False) = Some s
       \<and> halted s
       \<and> serial s = [CHR ''E'', CHR ''R'', CHR ''O'', CHR ''R'', CHR '' '', CHR ''O'', CHR ''L'',
                     CHR ''E'', CHR ''D'', CHR '' '', CHR ''S'', CHR ''T'', CHR ''O'', CHR ''P'',
                     CHR 0x0D, CHR 0x0A]"
  using display_failure_halts
    [of binary32_ops ProfileA
      "[Pulse 1000, Loop 15001 (no_fix binary32_ops), Pulse 16000000,
        Loop 30002 (readme_fix binary32_ops)]"]
  by simp

subsection \<open>The logging period\<close>

lemma loop_not_due: "\<not> due now s \<Longrightarrow> loop P ops now g s = Some s"
  by (simp add: loop_def)

lemma loop_due: "due now s \<Longrightarrow> loop P ops now g s = logging_cycle P ops now g s"
  by (simp add: loop_def)

lemma due_true_time:
  assumes "T1 \<le> T2" "previousMillis s = of_nat T1"
  shows "T2 - T1 < 2 ^ 32 \<Longrightarrow> due (of_nat T2) s \<longleftrightarrow> 15000 < T2 - T1"
    and "due (of_nat T2) s \<Longrightarrow> 15000 < T2 - T1"
proof -
  have d: "(of_nat T2 :: u32) - of_nat T1 = of_nat (T2 - T1)"
    using assms(1) by (simp add: of_nat_diff)
  have e: "elapsed (previousMillis s) (of_nat T2) = (T2 - T1) mod 2 ^ 32"
    using d assms(2) by (simp add: elapsed_def unat_of_nat)
  show "T2 - T1 < 2 ^ 32 \<Longrightarrow> due (of_nat T2) s \<longleftrightarrow> 15000 < T2 - T1"
    using e by (simp add: due_elapsed)
  have "(T2 - T1) mod 2 ^ 32 \<le> T2 - T1" by simp
  then show "due (of_nat T2) s \<Longrightarrow> 15000 < T2 - T1"
    using e by (simp add: due_elapsed)
qed

text \<open>
  Claim C7. Let the previous logging interval have started at true millisecond \<open>T1\<close> and
  let \<^verbatim>\<open>loop\<close> run at true millisecond \<open>T2 \<ge> T1\<close> of the monotonic clock. With 15000 ms
  or less elapsed the pass changes nothing and emits nothing; a pass that changes
  anything has more than 15000 ms elapsed; and with more than 15000 ms (and less than
  \<open>2 ^ 32\<close> ms) elapsed the pass performs the logging cycle: it emits one record line,
  refreshes the display, restarts the interval and resets the pulse count.
\<close>

theorem logging_only_after_period:
  assumes "T1 \<le> T2" and "previousMillis s = of_nat T1"
  shows "(T2 - T1 \<le> 15000 \<longrightarrow> loop P ops (of_nat T2) g s = Some s)
       \<and> (loop P ops (of_nat T2) g s \<noteq> Some s \<longrightarrow> 15000 < T2 - T1)
       \<and> (15000 < T2 - T1 \<and> T2 - T1 < 2 ^ 32 \<and> window_ok s \<longrightarrow>
            (\<exists>s1. loop P ops (of_nat T2) g s = Some s1
                  \<and> previousMillis s1 = of_nat T2 \<and> counts s1 = 0
                  \<and> serial s1 = serial s @ println (dane P ops g (uSv_of P ops (counts s))
                        (f_div ops (total_uSv s1) (f_of_long ops 16)))
                  \<and> oled s1 = oled_frame P ops g (uSv_of P ops (counts s))
                        (f_div ops (total_uSv s1) (f_of_long ops 16))))"
proof (intro conjI impI)
  assume "T2 - T1 \<le> 15000"
  then have "\<not> due (of_nat T2) s"
    using due_true_time(2) [OF assms] by fastforce
  then show "loop P ops (of_nat T2) g s = Some s" by (rule loop_not_due)
next
  assume "loop P ops (of_nat T2) g s \<noteq> Some s"
  then have "due (of_nat T2) s" using loop_not_due by blast
  then show "15000 < T2 - T1" by (rule due_true_time(2) [OF assms])
next
  assume a: "15000 < T2 - T1 \<and> T2 - T1 < 2 ^ 32 \<and> window_ok s"
  then have "due (of_nat T2) s" using due_true_time(1) [OF assms] by simp
  then show "\<exists>s1. loop P ops (of_nat T2) g s = Some s1
                  \<and> previousMillis s1 = of_nat T2 \<and> counts s1 = 0
                  \<and> serial s1 = serial s @ println (dane P ops g (uSv_of P ops (counts s))
                        (f_div ops (total_uSv s1) (f_of_long ops 16)))
                  \<and> oled s1 = oled_frame P ops g (uSv_of P ops (counts s))
                        (f_div ops (total_uSv s1) (f_of_long ops 16))"
    using a by (simp add: loop_due logging_cycle_Some)
qed

theorem logging_only_after_period_witness:
  "loop ProfileA exact_ops 15000 (no_fix exact_ops) (setup_sketch exact_ops True)
     = Some (setup_sketch exact_ops True)
   \<and> (\<exists>s1. loop ProfileA exact_ops 15001 (no_fix exact_ops) (setup_sketch exact_ops True) = Some s1
          \<and> previousMillis s1 = 15001 \<and> counts s1 = 0)"
proof -
  have p: "previousMillis (setup_sketch exact_ops True) = of_nat 0"
    by (simp add: setup_sketch_def)
  have w: "window_ok (setup_sketch exact_ops True)" by (rule window_ok_setup)
  have n: "(of_nat 15000 :: u32) = 15000" "(of_nat 15001 :: u32) = 15001" by simp_all
  from logging_only_after_period [of 0 15000, OF _ p, of ProfileA exact_ops "no_fix exact_ops"]
  have a: "loop ProfileA exact_ops 15000 (no_fix exact_ops) (setup_sketch exact_ops True)
           = Some (setup_sketch exact_ops True)"
    unfolding n by simp
  from logging_only_after_period [of 0 15001, OF _ p, of ProfileA exact_ops "no_fix exact_ops"] w
  have "\<exists>s1. loop ProfileA exact_ops 15001 (no_fix exact_ops) (setup_sketch exact_ops True) = Some s1
          \<and> previousMillis s1 = 15001 \<and> counts s1 = 0"
    unfolding n by auto
  with a show ?thesis by blast
qed

subsection \<open>Date and time\<close>

lemma String_unsigned_digit: "n < 10 \<Longrightarrow> String_unsigned n = [digit_char n]"
  by (simp add: String_unsigned.simps)

lemma String_unsigned_more:
  "10 \<le> n \<Longrightarrow> String_unsigned n = String_unsigned (n div 10) @ [digit_char (n mod 10)]"
  by (subst String_unsigned.simps) simp

lemma String_unsigned_two: "10 \<le> n \<Longrightarrow> n < 100 \<Longrightarrow> String_unsigned n = pad2 n"
  by (simp add: String_unsigned_more String_unsigned_digit pad2_def)

lemma zero_padded:
  "n < 100 \<Longrightarrow> (if n < 10 then ''0'' else []) @ String_unsigned n = pad2 n"
  by (simp add: String_unsigned_two String_unsigned_digit pad2_def digit_char_def)

lemma String_unsigned_four:
  assumes "1000 \<le> n" "n < 10000"
  shows "String_unsigned n = pad2 (n div 100) @ pad2 (n mod 100)"
proof -
  have a: "String_unsigned n = String_unsigned (n div 10) @ [digit_char (n mod 10)]"
    using assms by (simp add: String_unsigned_more)
  have e: "n div 10 div 10 = n div 100"
    by (simp add: div_mult2_eq [symmetric])
  have b: "String_unsigned (n div 10) = String_unsigned (n div 100) @ [digit_char (n div 10 mod 10)]"
    using assms by (simp add: String_unsigned_more [of "n div 10"] e)
  have c: "String_unsigned (n div 100) = pad2 (n div 100)"
    using assms by (simp add: String_unsigned_two)
  have m: "n mod 100 = 10 * (n div 10 mod 10) + n mod 10"
    using mod_mult2_eq [of n 10 10] by simp
  have d: "n mod 100 div 10 = n div 10 mod 10" "n mod 100 mod 10 = n mod 10"
    unfolding m by simp_all
  show ?thesis
    by (simp add: a b c pad2_def d)
qed

lemma year_two_digits:
  "1000 \<le> n \<Longrightarrow> n < 10000 \<Longrightarrow> substring 2 (String_unsigned n) = pad2 (n mod 100)"
  by (simp add: String_unsigned_four substring_def pad2_def)

lemma digit_cases: "d < 10 \<Longrightarrow> d \<in> {0, 1, 2, 3, 4, 5, 6, 7, 8, 9 :: nat}"
  by auto

lemma digit_val_digit_char: "d < 10 \<Longrightarrow> digit_val (digit_char d) = d"
  using digit_cases [of d] by (auto simp: digit_val_def digit_char_def)

lemma is_digit_digit_char: "d < 10 \<Longrightarrow> is_digit (digit_char d)"
  using digit_cases [of d] by (auto simp: is_digit_def digit_char_def)

lemma digit_char_zero: "d < 10 \<Longrightarrow> digit_char d = CHR ''0'' \<longleftrightarrow> d = 0"
  using digit_cases [of d] by (auto simp: digit_char_def)

lemma String_unsigned_nonempty: "String_unsigned n \<noteq> []"
  by (subst String_unsigned.simps) simp

lemma dec_val_snoc: "dec_val (s @ [c]) = 10 * dec_val s + digit_val c"
  by (simp add: dec_val_def)

lemma dec_val_String_unsigned: "dec_val (String_unsigned n) = n"
proof (induction n rule: String_unsigned.induct)
  case (1 n)
  show ?case
  proof (cases "n < 10")
    case True
    then show ?thesis
      by (simp add: String_unsigned_digit dec_val_def digit_val_digit_char)
  next
    case False
    then show ?thesis
      using 1 by (simp add: String_unsigned_more dec_val_snoc digit_val_digit_char)
  qed
qed

lemma digits_String_unsigned: "list_all is_digit (String_unsigned n)"
proof (induction n rule: String_unsigned.induct)
  case (1 n)
  show ?case
  proof (cases "n < 10")
    case True
    then show ?thesis by (simp add: String_unsigned_digit is_digit_digit_char)
  next
    case False
    then show ?thesis
      using 1 by (simp add: String_unsigned_more is_digit_digit_char)
  qed
qed

lemma no_leading_zero: "hd (String_unsigned n) = CHR ''0'' \<Longrightarrow> n = 0"
proof (induction n rule: String_unsigned.induct)
  case (1 n)
  show ?case
  proof (cases "n < 10")
    case True
    then show ?thesis
      using "1.prems" by (simp add: String_unsigned_digit digit_char_zero)
  next
    case False
    then have "hd (String_unsigned n) = hd (String_unsigned (n div 10))"
      by (simp add: String_unsigned_more String_unsigned_nonempty)
    then have "n div 10 = 0" using 1 False by simp
    then show ?thesis using False by simp
  qed
qed

lemma unpadded_String_unsigned: "unpadded (String_unsigned n) n"
  using no_leading_zero [of n]
  by (auto simp: unpadded_def String_unsigned_nonempty digits_String_unsigned
      dec_val_String_unsigned String_unsigned_digit digit_char_def)

lemma length_pad2: "length (pad2 n) = 2"
  by (simp add: pad2_def)

lemmas text_eval = String_unsigned_digit String_unsigned_more digit_char_def String_signed_def
  pad2_def substring_def

text \<open>
  Claim C8. For a valid date and time (day, month, hour, minute and second below 100, a
  four-digit year), Profile A writes the date as day, month and year without padding,
  separated by dots and followed by \<open>r.\<close>, and the time with the hour unpadded and the
  minute and second padded to two digits; Profile B writes day, month and the last two
  digits of the year padded to two digits each, without suffix, and hour, minute and
  second padded to two digits each.
\<close>

theorem date_time_format:
  assumes "date_valid g" and "time_valid g"
    and "unat (day g) < 100" and "unat (month g) < 100"
    and "1000 \<le> unat (year g)" and "unat (year g) < 10000"
    and "unat (hour g) < 100" and "unat (minute g) < 100" and "unat (second g) < 100"
  shows "data_A g = String_unsigned (unat (day g)) @ ''.'' @ String_unsigned (unat (month g))
                    @ ''.'' @ String_unsigned (unat (year g)) @ ''r.''
       \<and> unpadded (String_unsigned (unat (day g))) (unat (day g))
       \<and> unpadded (String_unsigned (unat (month g))) (unat (month g))
       \<and> unpadded (String_unsigned (unat (year g))) (unat (year g))
       \<and> length (String_unsigned (unat (year g))) = 4
       \<and> czas_A g = String_unsigned (unat (hour g)) @ '':'' @ pad2 (unat (minute g))
                    @ '':'' @ pad2 (unat (second g))
       \<and> unpadded (String_unsigned (unat (hour g))) (unat (hour g))
       \<and> data_B g = pad2 (unat (day g)) @ ''.'' @ pad2 (unat (month g))
                    @ ''.'' @ pad2 (unat (year g) mod 100)
       \<and> czas_B g = pad2 (unat (hour g)) @ '':'' @ pad2 (unat (minute g))
                    @ '':'' @ pad2 (unat (second g))"
proof -
  have a: "data_A g = String_unsigned (unat (day g)) @ ''.'' @ String_unsigned (unat (month g))
                    @ ''.'' @ String_unsigned (unat (year g)) @ ''r.''"
    using assms(1) by (simp add: data_A_def)
  have y: "length (String_unsigned (unat (year g))) = 4"
    using assms(5,6) by (simp add: String_unsigned_four length_pad2)
  have ca: "czas_A g = String_unsigned (unat (hour g)) @ '':'' @ pad2 (unat (minute g))
                    @ '':'' @ pad2 (unat (second g))"
    using assms(2) zero_padded [OF assms(8)] zero_padded [OF assms(9)]
    by (simp add: czas_A_def)
  have b: "data_B g = pad2 (unat (day g)) @ ''.'' @ pad2 (unat (month g))
                    @ ''.'' @ pad2 (unat (year g) mod 100)"
    using assms(1) zero_padded [OF assms(3)] zero_padded [OF assms(4)]
      year_two_digits [OF assms(5,6)]
    by (simp add: data_B_def)
  have cb: "czas_B g = pad2 (unat (hour g)) @ '':'' @ pad2 (unat (minute g))
                    @ '':'' @ pad2 (unat (second g))"
    using assms(2) zero_padded [OF assms(7)] zero_padded [OF assms(8)] zero_padded [OF assms(9)]
    by (simp add: czas_B_def)
  show ?thesis
    using a y ca b cb unpadded_String_unsigned by blast
qed

theorem date_time_format_witness:
  "data_A (readme_fix exact_ops\<lparr>day := 5, month := 3, hour := 7, minute := 5, second := 9\<rparr>)
     = ''5.3.2025r.''
   \<and> czas_A (readme_fix exact_ops\<lparr>day := 5, month := 3, hour := 7, minute := 5, second := 9\<rparr>)
     = ''7:05:09''
   \<and> data_B (readme_fix exact_ops\<lparr>day := 5, month := 3, hour := 7, minute := 5, second := 9\<rparr>)
     = ''05.03.25''
   \<and> czas_B (readme_fix exact_ops\<lparr>day := 5, month := 3, hour := 7, minute := 5, second := 9\<rparr>)
     = ''07:05:09''"
proof -
  let ?g = "readme_fix exact_ops\<lparr>day := 5, month := 3, hour := 7, minute := 5, second := 9\<rparr>"
  have "data_A ?g = String_unsigned (unat (day ?g)) @ ''.'' @ String_unsigned (unat (month ?g))
                    @ ''.'' @ String_unsigned (unat (year ?g)) @ ''r.''
       \<and> czas_A ?g = String_unsigned (unat (hour ?g)) @ '':'' @ pad2 (unat (minute ?g))
                    @ '':'' @ pad2 (unat (second ?g))
       \<and> data_B ?g = pad2 (unat (day ?g)) @ ''.'' @ pad2 (unat (month ?g))
                    @ ''.'' @ pad2 (unat (year ?g) mod 100)
       \<and> czas_B ?g = pad2 (unat (hour ?g)) @ '':'' @ pad2 (unat (minute ?g))
                    @ '':'' @ pad2 (unat (second ?g))"
    using date_time_format [of ?g] by (simp add: readme_fix_def)
  then show ?thesis
    by (simp add: readme_fix_def text_eval)
qed

subsection \<open>Evaluating the binary32 instance\<close>

lemma floor_rat_numeral [simp]:
  "\<lfloor>numeral a / numeral b :: rat\<rfloor> = numeral a div numeral b"
  by (metis floor_divide_of_int_eq of_int_numeral)

lemma floor_rat_one_numeral [simp]: "\<lfloor>1 / numeral b :: rat\<rfloor> = 1 div numeral b"
  by (metis floor_divide_of_int_eq of_int_1 of_int_numeral)

lemma ilog2_up_stop: "x < 2 \<Longrightarrow> ilog2_up x = 0"
  by (simp add: ilog2_up.simps)

lemma ilog2_up_more: "2 \<le> x \<Longrightarrow> ilog2_up x = ilog2_up (x / 2) + 1"
  by (subst ilog2_up.simps) simp

lemma ilog2_down_stop: "x \<le> 0 \<or> 1 \<le> x \<Longrightarrow> ilog2_down x = 0"
  by (simp add: ilog2_down.simps)

lemma ilog2_down_more: "0 < x \<Longrightarrow> x < 1 \<Longrightarrow> ilog2_down x = ilog2_down (2 * x) - 1"
  by (subst ilog2_down.simps) simp

lemmas f32_eval = round32_def ilog2_def ilog2_up_stop ilog2_up_more ilog2_down_stop ilog2_down_more
  round_even_def pow2_def trunc0_def Let_def

lemmas ctl_eval = setup_sketch_def logging_cycle_def loop_def due_def impulse_def uSv_of_def
  cpm_of_def LOG_PERIOD_def NUM_SAMPLES_def uSv_per_CPM_def c_mod_def c_div_def no_fix_def

lemma replicate_16:
  "replicate 16 x = [x, x, x, x, x, x, x, x, x, x, x, x, x, x, x, x]"
  by (simp add: numeral_eq_Suc)

lemma list_update_Cons_numeral:
  "(x # xs)[numeral k := y] = x # xs[pred_numeral k := y]"
  by (simp add: numeral_eq_Suc)

lemma print_rounding_numeral:
  "print_rounding (numeral k) = round32 (print_rounding (pred_numeral k) / round32 10)"
  by (simp add: numeral_eq_Suc)

lemma print_digits_step:
  "print_digits (numeral k) r =
     String_unsigned (nat (trunc0 (round32 (r * round32 10))))
     @ print_digits (pred_numeral k)
         (round32 (round32 (r * round32 10)
                   - round32 (of_int (trunc0 (round32 (r * round32 10))))))"
  by (simp add: numeral_eq_Suc Let_def)

lemma printFloat_step:
  "printFloat x d =
     (if x < 0 then ''-'' else [])
     @ String_unsigned (nat (trunc0 (round32 (\<bar>x\<bar> + print_rounding d))))
     @ (if 0 < d then ''.'' else [])
     @ print_digits d
         (round32 (round32 (\<bar>x\<bar> + print_rounding d)
                   - round32 (of_int (trunc0 (round32 (\<bar>x\<bar> + print_rounding d))))))"
  by (simp add: printFloat_def Let_def)

text \<open>
  The coordinates of the README's frame as Profile A shows them on the display, and a
  dose with two decimals.
\<close>

lemma printFloat_examples:
  "printFloat (round32 (5222977 / 100000)) 6 = ''52.229770''"
  "printFloat (round32 (2101178 / 100000)) 6 = ''21.011779''"
  "printFloat (round32 (15 / 100)) 2 = ''0.15''"
  by (simp_all add: printFloat_step print_rounding_numeral print_digits_step f32_eval
      text_eval)

subsection \<open>The record without a fix\<close>

lemma fields_no_pipe: "CHR ''|'' \<notin> set a \<Longrightarrow> record_fields a = [a]"
  by (induction a) auto

lemma fields_append:
  "CHR ''|'' \<notin> set a \<Longrightarrow> record_fields (a @ CHR ''|'' # b) = a # record_fields b"
  by (induction a) auto

lemma dane_A_no_fix:
  assumes "\<not> date_valid g" "\<not> time_valid g" "\<not> location_valid g" "\<not> altitude_valid g"
    "\<not> satellites_valid g" "\<not> hdop_valid g"
  shows "dane ProfileA ops g u a =
     ''00.00.0000r.|00:00:00|0.000000|0.000000|0.00|0|0.00|0|'' @ String_f ops u 2 @ ''|''
     @ String_f ops a 2"
  using assms
  by (simp add: dane_def dane_A_def data_A_def czas_A_def wspolrzedne_A_def wysokosc_A_def
      satelity_def hdop_A_def dokladnosc_A_def)

lemma dane_B_no_fix:
  assumes "\<not> date_valid g" "\<not> time_valid g" "\<not> location_valid g" "\<not> altitude_valid g"
    "\<not> satellites_valid g" "\<not> hdop_valid g"
  shows "dane ProfileB ops g u a =
     ''00.00.00|00:00:00|00.000000|00.000000|0|0|0|0|'' @ String_f ops u 2 @ ''|''
     @ String_f ops a 2"
  using assms
  by (simp add: dane_def dane_B_def data_B_def czas_B_def latitude_B_def longitude_B_def
      wysokosc_B_def satelity_def hdop_B_def dokladnosc_B_def)

lemma fields_A_no_fix:
  assumes "CHR ''|'' \<notin> set x" "CHR ''|'' \<notin> set y"
  shows "record_fields (''00.00.0000r.|00:00:00|0.000000|0.000000|0.00|0|0.00|0|'' @ x @ ''|'' @ y)
     = [''00.00.0000r.'', ''00:00:00'', ''0.000000'', ''0.000000'', ''0.00'', ''0'', ''0.00'',
        ''0'', x, y]"
  using assms
  by (simp add: fields_append fields_no_pipe)

lemma fields_B_no_fix:
  assumes "CHR ''|'' \<notin> set x" "CHR ''|'' \<notin> set y"
  shows "record_fields (''00.00.00|00:00:00|00.000000|00.000000|0|0|0|0|'' @ x @ ''|'' @ y)
     = [''00.00.00'', ''00:00:00'', ''00.000000'', ''00.000000'', ''0'', ''0'', ''0'', ''0'', x, y]"
  using assms
  by (simp add: fields_append fields_no_pipe)

lemma pipe_free_String_unsigned: "CHR ''|'' \<notin> set (String_unsigned n)"
proof -
  have "\<not> is_digit (CHR ''|'')" by (simp add: is_digit_def)
  then show ?thesis
    using digits_String_unsigned [of n] by (auto simp: list_all_iff)
qed

lemma pipe_free_fixed_text: "CHR ''|'' \<notin> set (fixed_text x d)"
  by (simp add: fixed_text_def pad_left_def Let_def pipe_free_String_unsigned)

text \<open>
  Claim C5. When no group of the fix is valid, the logging cycle still emits a record:
  it appends to the serial output one line, ended by carriage return and line feed, whose
  date, time and position are the fallback texts of the profile, followed by the fallback
  texts of altitude, satellites, HDOP and accuracy and by the two doses. That line splits
  at the pipes into exactly ten fields (the two dose fields, printed by the platform,
  contain no pipe).
\<close>

theorem no_fix_record:
  assumes "\<not> date_valid g" and "\<not> time_valid g" and "\<not> location_valid g"
    and "\<not> altitude_valid g" and "\<not> satellites_valid g" and "\<not> hdop_valid g"
    and "\<forall>x. CHR ''|'' \<notin> set (String_f ops x 2)"
    and "window_ok s"
  shows "(\<exists>s1. logging_cycle ProfileA ops now g s = Some s1
              \<and> serial s1 = serial s
                  @ ''00.00.0000r.|00:00:00|0.000000|0.000000|0.00|0|0.00|0|''
                  @ String_f ops (uSv_of ProfileA ops (counts s)) 2 @ ''|''
                  @ String_f ops (f_div ops (total_uSv s1) (f_of_long ops 16)) 2
                  @ [CHR 0x0D, CHR 0x0A])
       \<and> (\<exists>s1. logging_cycle ProfileB ops now g s = Some s1
              \<and> serial s1 = serial s
                  @ ''00.00.00|00:00:00|00.000000|00.000000|0|0|0|0|''
                  @ String_f ops (uSv_of ProfileB ops (counts s)) 2 @ ''|''
                  @ String_f ops (f_div ops (total_uSv s1) (f_of_long ops 16)) 2
                  @ [CHR 0x0D, CHR 0x0A])
       \<and> record_fields (''00.00.0000r.|00:00:00|0.000000|0.000000|0.00|0|0.00|0|''
                         @ String_f ops u 2 @ ''|'' @ String_f ops a 2)
           = [''00.00.0000r.'', ''00:00:00'', ''0.000000'', ''0.000000'', ''0.00'', ''0'',
              ''0.00'', ''0'', String_f ops u 2, String_f ops a 2]
       \<and> record_fields (''00.00.00|00:00:00|00.000000|00.000000|0|0|0|0|''
                         @ String_f ops u 2 @ ''|'' @ String_f ops a 2)
           = [''00.00.00'', ''00:00:00'', ''00.000000'', ''00.000000'', ''0'', ''0'', ''0'',
              ''0'', String_f ops u 2, String_f ops a 2]
       \<and> data_A g = ''00.00.0000r.'' \<and> czas_A g = ''00:00:00''
       \<and> wspolrzedne_A ops g = ''0.000000|0.000000''
       \<and> data_B g = ''00.00.00'' \<and> czas_B g = ''00:00:00''
       \<and> latitude_B ops g = ''00.000000'' \<and> longitude_B ops g = ''00.000000''
       \<and> length (record_fields (dane P ops g u a)) = 10"
proof -
  have p: "CHR ''|'' \<notin> set (String_f ops u 2)" "CHR ''|'' \<notin> set (String_f ops a 2)"
    using assms(7) by simp_all
  have fa: "record_fields (''00.00.0000r.|00:00:00|0.000000|0.000000|0.00|0|0.00|0|''
                         @ String_f ops u 2 @ ''|'' @ String_f ops a 2)
           = [''00.00.0000r.'', ''00:00:00'', ''0.000000'', ''0.000000'', ''0.00'', ''0'',
              ''0.00'', ''0'', String_f ops u 2, String_f ops a 2]"
    by (rule fields_A_no_fix [OF p])
  have fb: "record_fields (''00.00.00|00:00:00|00.000000|00.000000|0|0|0|0|''
                         @ String_f ops u 2 @ ''|'' @ String_f ops a 2)
           = [''00.00.00'', ''00:00:00'', ''00.000000'', ''00.000000'', ''0'', ''0'', ''0'',
              ''0'', String_f ops u 2, String_f ops a 2]"
    by (rule fields_B_no_fix [OF p])
  have len: "length (record_fields (dane P ops g u a)) = 10"
  proof (cases P)
    case ProfileA
    then show ?thesis
      unfolding ProfileA dane_A_no_fix [OF assms(1-6)] fa by simp
  next
    case ProfileB
    then show ?thesis
      unfolding ProfileB dane_B_no_fix [OF assms(1-6)] fb by simp
  qed
  have lits: "data_A g = ''00.00.0000r.''" "czas_A g = ''00:00:00''"
    "wspolrzedne_A ops g = ''0.000000|0.000000''"
    "data_B g = ''00.00.00''" "czas_B g = ''00:00:00''"
    "latitude_B ops g = ''00.000000''" "longitude_B ops g = ''00.000000''"
    using assms(1-3)
    by (simp_all add: data_A_def czas_A_def wspolrzedne_A_def data_B_def czas_B_def
        latitude_B_def longitude_B_def)
  have ca: "\<exists>s1. logging_cycle ProfileA ops now g s = Some s1
              \<and> serial s1 = serial s
                  @ ''00.00.0000r.|00:00:00|0.000000|0.000000|0.00|0|0.00|0|''
                  @ String_f ops (uSv_of ProfileA ops (counts s)) 2 @ ''|''
                  @ String_f ops (f_div ops (total_uSv s1) (f_of_long ops 16)) 2
                  @ [CHR 0x0D, CHR 0x0A]"
    by (simp add: logging_cycle_Some [OF assms(8)] dane_A_no_fix [OF assms(1-6)]
        println_def CRLF_def)
  have cb: "\<exists>s1. logging_cycle ProfileB ops now g s = Some s1
              \<and> serial s1 = serial s
                  @ ''00.00.00|00:00:00|00.000000|00.000000|0|0|0|0|''
                  @ String_f ops (uSv_of ProfileB ops (counts s)) 2 @ ''|''
                  @ String_f ops (f_div ops (total_uSv s1) (f_of_long ops 16)) 2
                  @ [CHR 0x0D, CHR 0x0A]"
    by (simp add: logging_cycle_Some [OF assms(8)] dane_B_no_fix [OF assms(1-6)]
        println_def CRLF_def)
  show ?thesis
    using ca cb fa fb lits len by blast
qed

theorem no_fix_record_witness:
  "(\<exists>s1. logging_cycle ProfileA binary32_ops 15001 (no_fix binary32_ops)
           (setup_sketch binary32_ops True) = Some s1
         \<and> serial s1 = ''00.00.0000r.|00:00:00|0.000000|0.000000|0.00|0|0.00|0|0.00|0.00''
                        @ [CHR 0x0D, CHR 0x0A])
   \<and> (\<exists>s1. logging_cycle ProfileB binary32_ops 15001 (no_fix binary32_ops)
           (setup_sketch binary32_ops True) = Some s1
         \<and> serial s1 = ''00.00.00|00:00:00|00.000000|00.000000|0|0|0|0|0.00|0.00''
                        @ [CHR 0x0D, CHR 0x0A])
   \<and> record_fields ''00.00.0000r.|00:00:00|0.000000|0.000000|0.00|0|0.00|0|0.00|0.00''
       = [''00.00.0000r.'', ''00:00:00'', ''0.000000'', ''0.000000'', ''0.00'', ''0'', ''0.00'',
          ''0'', ''0.00'', ''0.00'']
   \<and> record_fields ''00.00.00|00:00:00|00.000000|00.000000|0|0|0|0|0.00|0.00''
       = [''00.00.00'', ''00:00:00'', ''00.000000'', ''00.000000'', ''0'', ''0'', ''0'', ''0'',
          ''0.00'', ''0.00'']"
proof -
  let ?g = "no_fix binary32_ops"
  let ?s = "setup_sketch binary32_ops True"
  have p: "\<forall>x. CHR ''|'' \<notin> set (String_f binary32_ops x 2)"
    by (simp add: binary32_ops_def pipe_free_fixed_text)
  have z: "String_f binary32_ops 0 2 = ''0.00''"
    by (simp add: binary32_ops_def fixed_text_def pad_left_def text_eval)
  have ua: "uSv_of ProfileA binary32_ops (counts ?s) = 0"
    and ub: "uSv_of ProfileB binary32_ops (counts ?s) = 0"
    by (simp_all add: ctl_eval binary32_ops_def f32_eval)
  have ta: "f_div binary32_ops
        (total_uSv (the (logging_cycle ProfileA binary32_ops 15001 ?g ?s)))
        (f_of_long binary32_ops 16) = 0"
    and tb: "f_div binary32_ops
        (total_uSv (the (logging_cycle ProfileB binary32_ops 15001 ?g ?s)))
        (f_of_long binary32_ops 16) = 0"
    by (simp_all add: ctl_eval binary32_ops_def f32_eval replicate_16)
  have e: "serial ?s = []"
    by (simp add: setup_sketch_def)
  from no_fix_record [where g = ?g and ops = binary32_ops and s = ?s and now = 15001
      and u = 0 and a = 0 and P = ProfileA, OF _ _ _ _ _ _ p window_ok_setup]
  have n: "(\<exists>s1. logging_cycle ProfileA binary32_ops 15001 ?g ?s = Some s1
              \<and> serial s1 = serial ?s
                  @ ''00.00.0000r.|00:00:00|0.000000|0.000000|0.00|0|0.00|0|''
                  @ String_f binary32_ops (uSv_of ProfileA binary32_ops (counts ?s)) 2 @ ''|''
                  @ String_f binary32_ops
                      (f_div binary32_ops (total_uSv s1) (f_of_long binary32_ops 16)) 2
                  @ [CHR 0x0D, CHR 0x0A])
       \<and> (\<exists>s1. logging_cycle ProfileB binary32_ops 15001 ?g ?s = Some s1
              \<and> serial s1 = serial ?s
                  @ ''00.00.00|00:00:00|00.000000|00.000000|0|0|0|0|''
                  @ String_f binary32_ops (uSv_of ProfileB binary32_ops (counts ?s)) 2 @ ''|''
                  @ String_f binary32_ops
                      (f_div binary32_ops (total_uSv s1) (f_of_long binary32_ops 16)) 2
                  @ [CHR 0x0D, CHR 0x0A])
       \<and> record_fields (''00.00.0000r.|00:00:00|0.000000|0.000000|0.00|0|0.00|0|''
                         @ String_f binary32_ops 0 2 @ ''|'' @ String_f binary32_ops 0 2)
           = [''00.00.0000r.'', ''00:00:00'', ''0.000000'', ''0.000000'', ''0.00'', ''0'',
              ''0.00'', ''0'', String_f binary32_ops 0 2, String_f binary32_ops 0 2]
       \<and> record_fields (''00.00.00|00:00:00|00.000000|00.000000|0|0|0|0|''
                         @ String_f binary32_ops 0 2 @ ''|'' @ String_f binary32_ops 0 2)
           = [''00.00.00'', ''00:00:00'', ''00.000000'', ''00.000000'', ''0'', ''0'', ''0'',
              ''0'', String_f binary32_ops 0 2, String_f binary32_ops 0 2]"
    by (simp add: no_fix_def)
  from n obtain sa where sa: "logging_cycle ProfileA binary32_ops 15001 ?g ?s = Some sa"
    "serial sa = serial ?s
        @ ''00.00.0000r.|00:00:00|0.000000|0.000000|0.00|0|0.00|0|''
        @ String_f binary32_ops (uSv_of ProfileA binary32_ops (counts ?s)) 2 @ ''|''
        @ String_f binary32_ops
            (f_div binary32_ops (total_uSv sa) (f_of_long binary32_ops 16)) 2
        @ [CHR 0x0D, CHR 0x0A]"
    by blast
  from n obtain sb where sb: "logging_cycle ProfileB binary32_ops 15001 ?g ?s = Some sb"
    "serial sb = serial ?s
        @ ''00.00.00|00:00:00|00.000000|00.000000|0|0|0|0|''
        @ String_f binary32_ops (uSv_of ProfileB binary32_ops (counts ?s)) 2 @ ''|''
        @ String_f binary32_ops
            (f_div binary32_ops (total_uSv sb) (f_of_long binary32_ops 16)) 2
        @ [CHR 0x0D, CHR 0x0A]"
    by blast
  have ia: "the (logging_cycle ProfileA binary32_ops 15001 ?g ?s) = sa"
    and ib: "the (logging_cycle ProfileB binary32_ops 15001 ?g ?s) = sb"
    by (simp_all only: sa(1) sb(1) option.sel)
  have a: "serial sa = ''00.00.0000r.|00:00:00|0.000000|0.000000|0.00|0|0.00|0|0.00|0.00''
                        @ [CHR 0x0D, CHR 0x0A]"
    unfolding sa(2) ua ta [unfolded ia] z e by simp
  have b: "serial sb = ''00.00.00|00:00:00|00.000000|00.000000|0|0|0|0|0.00|0.00''
                        @ [CHR 0x0D, CHR 0x0A]"
    unfolding sb(2) ub tb [unfolded ib] z e by simp
  have fa: "record_fields ''00.00.0000r.|00:00:00|0.000000|0.000000|0.00|0|0.00|0|0.00|0.00''
       = [''00.00.0000r.'', ''00:00:00'', ''0.000000'', ''0.000000'', ''0.00'', ''0'', ''0.00'',
          ''0'', ''0.00'', ''0.00'']"
    using n unfolding z by simp
  have fb: "record_fields ''00.00.00|00:00:00|00.000000|00.000000|0|0|0|0|0.00|0.00''
       = [''00.00.00'', ''00:00:00'', ''00.000000'', ''00.000000'', ''0'', ''0'', ''0'', ''0'',
          ''0.00'', ''0.00'']"
    using n unfolding z by simp
  show ?thesis
    using sa(1) sb(1) a b fa fb by blast
qed

subsection \<open>The accuracy estimate\<close>

lemma int32_id: "- 2147483648 \<le> x \<Longrightarrow> x < 2147483648 \<Longrightarrow> int32 x = x"
proof -
  assume b: "- 2147483648 \<le> x" "x < 2147483648"
  have "int32 x = signed_take_bit 31 x"
    unfolding int32_def by (simp only: sint_sbintrunc') simp
  also have "\<dots> = x"
    using b by (intro signed_take_bit_int_eq_self) simp_all
  finally show ?thesis .
qed

lemma int16_id: "- 32768 \<le> x \<Longrightarrow> x < 32768 \<Longrightarrow> int16 x = x"
proof -
  assume b: "- 32768 \<le> x" "x < 32768"
  have "int16 x = signed_take_bit 15 x"
    unfolding int16_def by (simp only: sint_sbintrunc') simp
  also have "\<dots> = x"
    using b by (intro signed_take_bit_int_eq_self) simp_all
  finally show ?thesis .
qed

lemma hdop_times3_div100_truncates:
  assumes "0 \<le> sint (hdop_value g)" "sint (hdop_value g) \<le> 9999"
  shows "hdop_times3_div100 g = sint (hdop_value g) * 3 div 100"
    and "0 \<le> hdop_times3_div100 g" and "hdop_times3_div100 g \<le> 299"
proof -
  have "int32 (sint (hdop_value g) * 3) = sint (hdop_value g) * 3"
    using assms by (intro int32_id) simp_all
  then show "hdop_times3_div100 g = sint (hdop_value g) * 3 div 100"
    using assms by (simp add: hdop_times3_div100_def c_div_def sgn_if)
  then show "0 \<le> hdop_times3_div100 g" "hdop_times3_div100 g \<le> 299"
    using assms by simp_all
qed

lemma dokladnosc_B_truncates:
  assumes "hdop_valid g" "0 \<le> sint (hdop_value g)" "sint (hdop_value g) \<le> 9999"
  shows "dokladnosc_B g = String_signed (sint (hdop_value g) * 3 div 100)"
  using assms hdop_times3_div100_truncates [OF assms(2,3)]
  by (simp add: dokladnosc_B_def int16_id)

text \<open>
  In binary32 arithmetic the macro \<^verbatim>\<open>round\<close> returns a small integer argument
  unchanged, so for every raw HDOP from 0 to 9999 Profile A prints the truncated quotient,
  as Profile B does.
\<close>

lemma ilog2_up_bounds:
  "1 \<le> x \<Longrightarrow> 0 \<le> ilog2_up x \<and> 2 ^ nat (ilog2_up x) \<le> x \<and> x < 2 * 2 ^ nat (ilog2_up x)"
proof (induction x rule: ilog2_up.induct)
  case (1 x)
  show ?case
  proof (cases "x < 2")
    case True
    then show ?thesis using "1.prems" by (simp add: ilog2_up_stop)
  next
    case False
    then have h: "1 \<le> x / 2" by simp
    from "1.IH" [OF False h]
    have ih: "0 \<le> ilog2_up (x / 2)" "2 ^ nat (ilog2_up (x / 2)) \<le> x / 2"
      "x / 2 < 2 * 2 ^ nat (ilog2_up (x / 2))"
      by simp_all
    have n: "nat (ilog2_up (x / 2) + 1) = Suc (nat (ilog2_up (x / 2)))"
      using ih(1) by simp
    show ?thesis
      using False ih by (simp add: ilog2_up_more n)
  qed
qed

lemma round_even_of_int: "round_even (of_int k) = k"
  by (simp add: round_even_def)

lemma round32_half_integer:
  assumes "2 \<le> m" "m < 2 ^ 24"
  shows "round32 (of_int m / 2) = of_int m / 2"
proof -
  let ?x = "of_int m / 2 :: rat"
  let ?e = "ilog2_up ?x"
  have x1: "1 \<le> ?x" using assms(1) by simp
  have x2: "?x < 2 ^ 23" using assms(2) by simp
  from ilog2_up_bounds [OF x1]
  have b: "0 \<le> ?e" "2 ^ nat ?e \<le> ?x" by simp_all
  have lt: "(2 :: rat) ^ nat ?e < 2 ^ 23" using b(2) x2 by (rule le_less_trans)
  have one: "(1 :: rat) < 2" by simp
  have "nat ?e < 23" by (rule power_less_imp_less_exp [OF one lt])
  then have e: "?e \<le> 22" using b(1) by simp
  define k where "k = nat (22 - ?e)"
  have k: "nat (23 - ?e) = Suc k" using e by (simp add: k_def)
  have l: "ilog2 ?x = ?e" using x1 by (simp add: ilog2_def)
  have q: "pow2 (max (ilog2 ?x) (- 126) - 23) = 1 / 2 ^ Suc k"
    using b(1) e by (simp add: l pow2_def k [symmetric] max_def)
  have d: "?x / (1 / 2 ^ Suc k) = of_int (m * 2 ^ k)"
    by simp
  have "round32 ?x = of_int (round_even (of_int (m * 2 ^ k))) * (1 / 2 ^ Suc k)"
    using x1 unfolding round32_def q Let_def d by simp
  also have "\<dots> = ?x"
    unfolding round_even_of_int by simp
  finally show ?thesis .
qed

lemma round_macro_binary32:
  assumes "0 \<le> x" "x < 2 ^ 22"
  shows "round_macro binary32_ops x = x"
proof (cases "x = 0")
  case True
  then show ?thesis
    by (simp add: round_macro_def binary32_ops_def f32_eval)
next
  case False
  then have p: "1 \<le> x" using assms(1) by simp
  have a: "round32 (of_int x) = of_int x"
    using round32_half_integer [of "2 * x"] p assms(2) by simp
  have h: "round32 (1 / 2) = 1 / 2"
    by (simp add: f32_eval)
  have c: "of_int x + 1 / 2 = (of_int (2 * x + 1) / 2 :: rat)" by simp
  have "round32 (of_int (2 * x + 1) / 2) = of_int (2 * x + 1) / 2"
    using p assms(2) by (intro round32_half_integer) simp_all
  then have b: "round32 (of_int x + 1 / 2) = of_int x + 1 / 2"
    by (simp only: c)
  have "\<lfloor>of_int x + 1 / 2 :: rat\<rfloor> = x" by linarith
  then show ?thesis
    using assms(1) by (simp add: round_macro_def binary32_ops_def a h b trunc0_def)
qed

lemma dokladnosc_A_truncates:
  assumes "hdop_valid g" "0 \<le> sint (hdop_value g)" "sint (hdop_value g) \<le> 9999"
  shows "dokladnosc_A binary32_ops g = String_signed (sint (hdop_value g) * 3 div 100)"
  using assms hdop_times3_div100_truncates [OF assms(2,3)]
  by (simp add: dokladnosc_A_def round_macro_binary32)

text \<open>
  Claim C1, at raw HDOP 125 (HDOP 1.25, as in the README's example frame): the division
  by 100 is an integer division, so the macro \<^verbatim>\<open>round\<close> of Profile A receives 3,
  not 3.75, and both profiles print 3, the truncation of 3.75. The HDOP field itself is
  divided by \<^verbatim>\<open>100.0\<close> and prints 1.25.
\<close>

theorem accuracy_hdop_125:
  "hdop_A binary32_ops (readme_fix binary32_ops) = ''1.25''
   \<and> dokladnosc_A binary32_ops (readme_fix binary32_ops) = ''3''
   \<and> dokladnosc_B (readme_fix binary32_ops) = ''3''"
  by (simp add: hdop_A_def dokladnosc_A_def dokladnosc_B_def readme_fix_def
      hdop_times3_div100_def c_div_def int32_def int16_def round_macro_def binary32_ops_def
      fixed_text_def pad_left_def f32_eval text_eval)

subsection \<open>The rounding error of binary32\<close>

text \<open>
  Rounding to binary32 moves a value by at most half a unit in the last place: by at most
  \<open>\<bar>x\<bar> / 2 ^ 24\<close> for a normal \<open>x\<close>, and by at most \<open>1 / 2 ^ 150\<close> below the normal range.
\<close>

lemma round_even_error: "\<bar>of_int (round_even m) - m\<bar> \<le> 1 / 2"
proof -
  have "of_int \<lfloor>m\<rfloor> \<le> m" "m < of_int \<lfloor>m\<rfloor> + 1"
    using floor_correct [of m] by simp_all
  then show ?thesis
    by (auto simp: round_even_def Let_def abs_le_iff)
qed

lemma pow2_powi: "pow2 e = 2 powi e"
  by (simp add: pow2_def power_int_def inverse_eq_divide power_one_over)

lemma pow2_pos: "0 < pow2 e"
  by (simp add: pow2_powi)

lemma round32_error_ulp: "\<bar>round32 x - x\<bar> \<le> pow2 (max (ilog2 x) (- 126) - 23) / 2"
proof (cases "x = 0")
  case True
  then show ?thesis using pow2_pos [of "max (ilog2 x) (- 126) - 23"] by (simp add: round32_def)
next
  case False
  define q where "q = pow2 (max (ilog2 x) (- 126) - 23)"
  have q: "0 < q" by (simp add: q_def pow2_pos)
  have "round32 x - x = (of_int (round_even (x / q)) - x / q) * q"
    using False q by (simp add: round32_def q_def Let_def algebra_simps)
  then have "\<bar>round32 x - x\<bar> = \<bar>of_int (round_even (x / q)) - x / q\<bar> * q"
    using q by (simp add: abs_mult)
  also have "\<dots> \<le> 1 / 2 * q"
    using round_even_error [of "x / q"] q by (intro mult_right_mono) simp_all
  finally show ?thesis by (simp add: q_def)
qed

lemma ilog2_up_le: "1 \<le> x \<Longrightarrow> pow2 (ilog2_up x) \<le> x \<and> 0 \<le> ilog2_up x"
proof (induction x rule: ilog2_up.induct)
  case (1 x)
  show ?case
  proof (cases "x < 2")
    case True
    then show ?thesis using 1(2) by (simp add: ilog2_up.simps [of x] pow2_def)
  next
    case False
    then have "1 \<le> x / 2" by simp
    from 1(1) [OF False this] have ih: "pow2 (ilog2_up (x / 2)) \<le> x / 2" "0 \<le> ilog2_up (x / 2)"
      by simp_all
    have "pow2 (ilog2_up (x / 2) + 1) = 2 * pow2 (ilog2_up (x / 2))"
      using ih(2) by (simp add: pow2_powi power_int_add)
    then show ?thesis using ih False by (simp add: ilog2_up.simps [of x])
  qed
qed

lemma ilog2_down_le: "0 < x \<Longrightarrow> x < 1 \<Longrightarrow> pow2 (ilog2_down x) \<le> x"
proof (induction x rule: ilog2_down.induct)
  case (1 x)
  have s: "ilog2_down x = ilog2_down (2 * x) - 1"
    using 1(2,3) by (simp add: ilog2_down.simps [of x])
  have p: "pow2 (e - 1) = pow2 e / 2" for e
    by (simp add: pow2_powi power_int_diff)
  show ?case
  proof (cases "2 * x < 1")
    case True
    from 1(1) [OF _ _ True] 1(2,3) have "pow2 (ilog2_down (2 * x)) \<le> 2 * x" by simp
    then show ?thesis by (simp add: s p)
  next
    case False
    then have "ilog2_down (2 * x) = 0" by (simp add: ilog2_down.simps [of "2 * x"])
    then show ?thesis using False by (simp add: s p pow2_def)
  qed
qed

lemma pow2_ilog2_le: "x \<noteq> 0 \<Longrightarrow> pow2 (ilog2 x) \<le> \<bar>x\<bar>"
  using ilog2_up_le [of "\<bar>x\<bar>"] ilog2_down_le [of "\<bar>x\<bar>"]
  by (auto simp: ilog2_def)

lemma round32_error:
  "\<bar>round32 x - x\<bar> \<le> max (\<bar>x\<bar> / 2 ^ 24) (1 / 2 ^ 150)"
proof (cases "x = 0")
  case True
  then show ?thesis by (simp add: round32_def)
next
  case False
  have p: "pow2 (e - 23) / 2 = pow2 e / 2 ^ 24" for e
    by (simp add: pow2_powi power_int_diff)
  show ?thesis
  proof (cases "- 126 \<le> ilog2 x")
    case True
    then have "max (ilog2 x) (- 126) = ilog2 x" by simp
    with round32_error_ulp [of x] have "\<bar>round32 x - x\<bar> \<le> pow2 (ilog2 x) / 2 ^ 24"
      by (simp add: p)
    also have "\<dots> \<le> \<bar>x\<bar> / 2 ^ 24"
      using pow2_ilog2_le [OF False] by (simp add: divide_right_mono)
    finally show ?thesis by (rule max.coboundedI1)
  next
    case False
    then have m: "max (ilog2 x) (- 126) = - 126" by simp
    have "\<bar>round32 x - x\<bar> \<le> pow2 (- 126 - 23) / 2"
      using round32_error_ulp [of x] by (simp only: m)
    then have "\<bar>round32 x - x\<bar> \<le> pow2 (- 126) / 2 ^ 24"
      by (simp only: p)
    also have "pow2 (- 126) / 2 ^ 24 = (1 :: rat) / 2 ^ 150"
      by (simp add: pow2_def)
    finally show ?thesis by (rule max.coboundedI2)
  qed
qed

subsection \<open>The sample window\<close>

lemma rotate_insert:
  assumes "i < length xs"
  shows "rotate (Suc i mod length xs) (xs[i := u]) = tl (rotate i xs) @ [u]"
proof -
  have r: "rotate i xs = drop i xs @ take i xs"
    using assms by (simp add: rotate_drop_take)
  have d: "drop i xs = xs ! i # drop (Suc i) xs"
    using assms by (simp add: Cons_nth_drop_Suc)
  have t: "tl (rotate i xs) = drop (Suc i) xs @ take i xs"
    by (simp add: r d)
  show ?thesis
  proof (cases "Suc i < length xs")
    case True
    then have "rotate (Suc i mod length xs) (xs[i := u])
        = drop (Suc i) (xs[i := u]) @ take (Suc i) (xs[i := u])"
      by (simp add: rotate_drop_take)
    also have "\<dots> = drop (Suc i) xs @ take i xs @ [u]"
      using assms by (simp add: take_Suc_conv_app_nth)
    finally show ?thesis by (simp add: t)
  next
    case False
    then have e: "Suc i = length xs" using assms by simp
    then have "xs[i := u] = take i xs @ [u]"
      using assms by (simp add: upd_conv_take_nth_drop)
    moreover have "drop (Suc i) xs = []" using e by simp
    ultimately show ?thesis using e by (simp add: t)
  qed
qed

lemma recent_snoc: "recent ops (xs @ [u]) = tl (recent ops xs) @ [u]"
proof -
  let ?A = "replicate 16 (f_lit ops 0) @ xs"
  have "recent ops (xs @ [u]) = drop (Suc (length xs)) (?A @ [u])"
    by (simp add: recent_def)
  also have "\<dots> = drop (Suc (length xs)) ?A @ [u]"
    by (subst drop_append) simp
  also have "drop (Suc (length xs)) ?A = tl (drop (length xs) ?A)"
    by (simp only: drop_Suc tl_drop)
  finally show ?thesis by (simp only: recent_def)
qed

lemma sum_list_map_update:
  fixes v :: "'a \<Rightarrow> rat"
  shows "i < length xs \<Longrightarrow>
    sum_list (map v (xs[i := u])) = sum_list (map v xs) - v (xs ! i) + v u"
proof (induction xs arbitrary: i)
  case Nil
  then show ?case by simp
next
  case (Cons x xs)
  then show ?case by (cases i) simp_all
qed

lemma sum_list_map_rotate:
  fixes v :: "'a \<Rightarrow> rat"
  shows "sum_list (map v (rotate n xs)) = sum_list (map v xs)"
proof -
  have "sum_list (map v (drop k xs @ take k xs)) = sum_list (map v (take k xs @ drop k xs))" for k
    by (simp only: map_append sum_list_append add.commute)
  then show ?thesis by (simp add: rotate_drop_take)
qed

text \<open>
  The state of the window after the dose samples \<open>xs\<close>: sixteen slots, the index at the
  number of samples modulo 16, the slots from the index on (cyclically) holding the most
  recent samples, oldest first. A logging cycle moves the window on by one sample, and
  changes the difference between the running sum and the sum of the slots by exactly its
  rounding error.
\<close>

lemma window_cycle:
  assumes "length (samples s) = 16"
    and "sampleIndex s = int (length xs mod 16)"
    and "rotate (length xs mod 16) (samples s) = recent ops xs"
  shows "\<exists>s1. logging_cycle P ops now g s = Some s1
       \<and> length (samples s1) = 16
       \<and> sampleIndex s1 = int (length (xs @ [uSv_of P ops (counts s)]) mod 16)
       \<and> rotate (length (xs @ [uSv_of P ops (counts s)]) mod 16) (samples s1)
           = recent ops (xs @ [uSv_of P ops (counts s)])
       \<and> v (total_uSv s1) - sum_list (map v (samples s1))
           = v (total_uSv s) - sum_list (map v (samples s)) + cycle_error v P ops s"
proof -
  let ?i = "length xs mod 16"
  let ?u = "uSv_of P ops (counts s)"
  have i: "?i < length (samples s)" using assms(1) by simp
  have ok: "window_ok s"
    using assms(1,2) i by (simp add: window_ok_def)
  have n: "nat (sampleIndex s) = ?i" using assms(2) by simp
  have m: "(sampleIndex s + 1) mod 16 = int (Suc (length xs) mod 16)"
    unfolding assms(2) by (simp add: zmod_int mod_add_right_eq ac_simps)
  have r: "rotate (Suc (length xs) mod 16) ((samples s)[?i := ?u]) = tl (recent ops xs) @ [?u]"
    using rotate_insert [OF i, of ?u] assms(1,3) by (simp add: mod_Suc_eq)
  have sum: "v (f_add ops (f_sub ops (total_uSv s) (samples s ! ?i)) ?u)
        - sum_list (map v ((samples s)[?i := ?u]))
      = v (total_uSv s) - sum_list (map v (samples s)) + cycle_error v P ops s"
    using i by (simp add: cycle_error_def Let_def n sum_list_map_update)
  show ?thesis
    using assms(1) m r sum
    by (simp add: logging_cycle_Some [OF ok] n recent_snoc)
qed

lemma window_run:
  assumes "length (samples s) = 16"
    and "sampleIndex s = int (length xs mod 16)"
    and "rotate (length xs mod 16) (samples s) = recent ops xs"
  shows "\<exists>s1. run P ops es s = Some s1
       \<and> length (samples s1) = 16
       \<and> sampleIndex s1 = int (length (xs @ doses P ops es s) mod 16)
       \<and> rotate (length (xs @ doses P ops es s) mod 16) (samples s1)
           = recent ops (xs @ doses P ops es s)
       \<and> v (total_uSv s1) - sum_list (map v (samples s1))
           = v (total_uSv s) - sum_list (map v (samples s)) + rounding_error v P ops es s"
  using assms
proof (induction es arbitrary: s xs)
  case Nil
  then show ?case by simp
next
  case (Cons e es)
  show ?case
  proof (cases "logs e s")
    case True
    then obtain now g where e: "e = Loop now g" and h: "\<not> halted s" and d: "due now s"
      by (cases e) simp_all
    let ?u = "uSv_of P ops (counts s)"
    from window_cycle [OF Cons.prems, of P now g v]
    obtain s1 where s1: "logging_cycle P ops now g s = Some s1"
      "length (samples s1) = 16"
      "sampleIndex s1 = int (length (xs @ [?u]) mod 16)"
      "rotate (length (xs @ [?u]) mod 16) (samples s1) = recent ops (xs @ [?u])"
      "v (total_uSv s1) - sum_list (map v (samples s1))
         = v (total_uSv s) - sum_list (map v (samples s)) + cycle_error v P ops s"
      by blast
    have st: "step P ops e s = Some s1"
      using e h d s1(1) by (simp add: loop_def)
    from Cons.IH [OF s1(2,3,4)]
    obtain s2 where s2: "run P ops es s1 = Some s2"
      "length (samples s2) = 16"
      "sampleIndex s2 = int (length ((xs @ [?u]) @ doses P ops es s1) mod 16)"
      "rotate (length ((xs @ [?u]) @ doses P ops es s1) mod 16) (samples s2)
         = recent ops ((xs @ [?u]) @ doses P ops es s1)"
      "v (total_uSv s2) - sum_list (map v (samples s2))
         = v (total_uSv s1) - sum_list (map v (samples s1)) + rounding_error v P ops es s1"
      by blast
    have ds: "doses P ops (e # es) s = ?u # doses P ops es s1"
      using st True by simp
    have re: "rounding_error v P ops (e # es) s
        = cycle_error v P ops s + rounding_error v P ops es s1"
      using st True by simp
    show ?thesis
      using st s2 s1(5) True
      by (simp add: ds re del: doses.simps rounding_error.simps)
  next
    case False
    have "\<exists>s1. step P ops e s = Some s1 \<and> samples s1 = samples s
        \<and> sampleIndex s1 = sampleIndex s \<and> total_uSv s1 = total_uSv s"
    proof (cases e)
      case (Pulse t)
      then show ?thesis by (simp add: impulse_def)
    next
      case (Loop now g)
      then show ?thesis using False by (auto simp: loop_def)
    qed
    then obtain s1 where s1: "step P ops e s = Some s1" "samples s1 = samples s"
      "sampleIndex s1 = sampleIndex s" "total_uSv s1 = total_uSv s"
      by blast
    have p: "length (samples s1) = 16" "sampleIndex s1 = int (length xs mod 16)"
      "rotate (length xs mod 16) (samples s1) = recent ops xs"
      using Cons.prems s1 by simp_all
    have ds: "doses P ops (e # es) s = doses P ops es s1"
      using s1(1) False by simp
    have re: "rounding_error v P ops (e # es) s = rounding_error v P ops es s1"
      using s1(1) False by simp
    from Cons.IH [OF p] show ?thesis
      using s1 False by (simp add: ds re del: doses.simps rounding_error.simps)
  qed
qed

text \<open>
  In exact arithmetic no cycle has a rounding error, and the running sum is the sum of
  the slots after every run. In binary32 the error of one cycle is bounded by the two
  roundings it makes.
\<close>

lemma cycle_error_exact: "cycle_error (\<lambda>x. x) P exact_ops s = 0"
  by (simp add: cycle_error_def exact_ops_def Let_def)

lemma rounding_error_exact: "rounding_error (\<lambda>x. x) P exact_ops es s = 0"
  by (induction es arbitrary: s) (simp_all add: cycle_error_exact split: option.splits)

lemma exact_running_sum:
  "\<exists>s. run P exact_ops es (setup_sketch exact_ops ok) = Some s
       \<and> total_uSv s = sum_list (samples s)"
proof -
  let ?s0 = "setup_sketch exact_ops ok"
  have a: "length (samples ?s0) = 16" "sampleIndex ?s0 = int (length ([] :: rat list) mod 16)"
    "rotate (length ([] :: rat list) mod 16) (samples ?s0) = recent exact_ops []"
    by (simp_all add: setup_sketch_def NUM_SAMPLES_def recent_def)
  have z: "total_uSv ?s0 - sum_list (samples ?s0) = 0"
    by (simp add: setup_sketch_def NUM_SAMPLES_def sum_list_replicate exact_ops_def)
  from window_run [OF a, of P es "\<lambda>x. x"]
  obtain s where s: "run P exact_ops es ?s0 = Some s"
    "total_uSv s - sum_list (map (\<lambda>x. x) (samples s))
       = total_uSv ?s0 - sum_list (map (\<lambda>x. x) (samples ?s0))
         + rounding_error (\<lambda>x. x) P exact_ops es ?s0"
    by auto
  have "total_uSv s = sum_list (samples s)"
    using s(2) z by (simp add: rounding_error_exact)
  then show ?thesis using s(1) by simp
qed

lemma binary32_cycle_error:
  "\<bar>cycle_error (\<lambda>x. x) P binary32_ops s\<bar>
     \<le> max (\<bar>total_uSv s - samples s ! nat (sampleIndex s)\<bar> / 2 ^ 24) (1 / 2 ^ 150)
       + max (\<bar>round32 (total_uSv s - samples s ! nat (sampleIndex s))
                + uSv_of P binary32_ops (counts s)\<bar> / 2 ^ 24) (1 / 2 ^ 150)"
proof -
  let ?a = "total_uSv s - samples s ! nat (sampleIndex s)"
  let ?b = "round32 ?a + uSv_of P binary32_ops (counts s)"
  have c: "cycle_error (\<lambda>x. x) P binary32_ops s = (round32 ?a - ?a) + (round32 ?b - ?b)"
    by (simp add: cycle_error_def binary32_ops_def Let_def)
  have "\<bar>(round32 ?a - ?a) + (round32 ?b - ?b)\<bar> \<le> \<bar>round32 ?a - ?a\<bar> + \<bar>round32 ?b - ?b\<bar>"
    by (rule abs_triangle_ineq)
  also have "\<dots> \<le> max (\<bar>?a\<bar> / 2 ^ 24) (1 / 2 ^ 150) + max (\<bar>?b\<bar> / 2 ^ 24) (1 / 2 ^ 150)"
    by (intro add_mono round32_error)
  finally show ?thesis by (simp only: c)
qed

lemma dane_ends_with_doses:
  "\<exists>pre. dane P ops g u a = pre @ ''|'' @ String_f ops u 2 @ ''|'' @ String_f ops a 2"
proof (cases P)
  case ProfileA
  show ?thesis
    unfolding ProfileA
    by (rule exI [of _ "data_A g @ ''|'' @ czas_A g @ ''|'' @ wspolrzedne_A ops g @ ''|''
          @ wysokosc_A ops g @ ''|'' @ satelity g @ ''|'' @ hdop_A ops g @ ''|''
          @ dokladnosc_A ops g"])
      (simp add: dane_def dane_A_def)
next
  case ProfileB
  show ?thesis
    unfolding ProfileB
    by (rule exI [of _ "data_B g @ ''|'' @ czas_B g @ ''|'' @ latitude_B ops g @ ''|''
          @ longitude_B ops g @ ''|'' @ wysokosc_B ops g @ ''|'' @ satelity g @ ''|''
          @ hdop_B ops g @ ''|'' @ dokladnosc_B g"])
      (simp add: dane_def dane_B_def)
qed

text \<open>
  Claim C4, as the code has it. After any run from \<^verbatim>\<open>setup\<close> the sixteen slots hold
  exactly the sixteen most recent dose samples (zeros for samples not yet taken): the
  write index is the number of logging cycles modulo 16, and read cyclically from the
  write index the slots are the most recent samples, oldest first, so the seventeenth
  sample has replaced the first. Every logging cycle reports, as the last field of its
  line, the running sum divided by 16 in the platform's float arithmetic. The running sum
  is the sum of the stored samples (which is the sum of the most recent sixteen) plus the
  rounding errors of all the subtractions and additions made on it so far; it equals the
  sum of the stored samples exactly when those rounding errors add up to zero.
\<close>

theorem sample_window:
  "\<exists>s. run P ops es (setup_sketch ops ok) = Some s
       \<and> length (samples s) = 16
       \<and> sampleIndex s = int (length (doses P ops es (setup_sketch ops ok)) mod 16)
       \<and> rotate (length (doses P ops es (setup_sketch ops ok)) mod 16) (samples s)
           = recent ops (doses P ops es (setup_sketch ops ok))
       \<and> sum_list (map v (samples s))
           = sum_list (map v (recent ops (doses P ops es (setup_sketch ops ok))))
       \<and> (v (f_lit ops 0) = 0 \<longrightarrow>
            v (total_uSv s) = sum_list (map v (samples s))
                              + rounding_error v P ops es (setup_sketch ops ok)
            \<and> (v (total_uSv s) = sum_list (map v (samples s))
                 \<longleftrightarrow> rounding_error v P ops es (setup_sketch ops ok) = 0))
       \<and> (\<forall>now g. \<exists>s1 pre. logging_cycle P ops now g s = Some s1
            \<and> serial s1 = serial s @ pre @ ''|''
                @ String_f ops (uSv_of P ops (counts s)) 2 @ ''|''
                @ String_f ops (f_div ops (total_uSv s1) (f_of_long ops 16)) 2
                @ [CHR 0x0D, CHR 0x0A])"
proof -
  let ?s0 = "setup_sketch ops ok"
  let ?xs = "doses P ops es ?s0"
  let ?E = "rounding_error v P ops es ?s0"
  have a: "length (samples ?s0) = 16" "sampleIndex ?s0 = int (length ([] :: 'a list) mod 16)"
    "rotate (length ([] :: 'a list) mod 16) (samples ?s0) = recent ops []"
    by (simp_all add: setup_sketch_def NUM_SAMPLES_def recent_def)
  have z: "v (f_lit ops 0) = 0 \<Longrightarrow> v (total_uSv ?s0) - sum_list (map v (samples ?s0)) = 0"
    by (simp add: setup_sketch_def NUM_SAMPLES_def sum_list_replicate)
  from window_run [OF a, of P es v]
  obtain s where s: "run P ops es ?s0 = Some s" "length (samples s) = 16"
    "sampleIndex s = int (length ?xs mod 16)"
    "rotate (length ?xs mod 16) (samples s) = recent ops ?xs"
    "v (total_uSv s) - sum_list (map v (samples s))
       = v (total_uSv ?s0) - sum_list (map v (samples ?s0)) + ?E"
    by auto
  have ok: "window_ok s"
    using s(2,3) by (simp add: window_ok_def)
  have e: "v (f_lit ops 0) = 0 \<Longrightarrow> v (total_uSv s) = sum_list (map v (samples s)) + ?E"
    using s(5) z by simp
  have r: "sum_list (map v (samples s)) = sum_list (map v (recent ops ?xs))"
    using sum_list_map_rotate [of v "length ?xs mod 16" "samples s"] s(4) by simp
  have c: "\<exists>s1 pre. logging_cycle P ops now g s = Some s1
            \<and> serial s1 = serial s @ pre @ ''|''
                @ String_f ops (uSv_of P ops (counts s)) 2 @ ''|''
                @ String_f ops (f_div ops (total_uSv s1) (f_of_long ops 16)) 2
                @ [CHR 0x0D, CHR 0x0A]" for now g
  proof -
    let ?u = "uSv_of P ops (counts s)"
    let ?t = "f_add ops (f_sub ops (total_uSv s) (samples s ! nat (sampleIndex s))) ?u"
    from dane_ends_with_doses [of P ops g ?u "f_div ops ?t (f_of_long ops 16)"]
    obtain pre where pre: "dane P ops g ?u (f_div ops ?t (f_of_long ops 16))
        = pre @ ''|'' @ String_f ops ?u 2 @ ''|''
          @ String_f ops (f_div ops ?t (f_of_long ops 16)) 2"
      by blast
    show ?thesis
      by (simp add: logging_cycle_Some [OF ok] pre println_def CRLF_def)
  qed
  show ?thesis
    using s(1-4) e r c by auto
qed

text \<open>
  Two runs in binary32 arithmetic. In \<open>steady_events\<close> every subtraction and addition
  on the running sum is exact: after eighteen cycles, the first dose evicted, the running
  sum is the sum of the slots. In \<open>drift_events\<close> (Profile B) the first cycle stores the
  dose of two pulses, the second the dose of one pulse, and fifteen cycles store 0. The
  sum of the first two doses is not a binary32 number, so the running sum holds it
  rounded; the seventeenth cycle evicts the first dose and the rounding error stays
  behind: the slots then hold the second dose and fifteen zeros, but the running sum is
  the second dose plus \<open>1 / 2 ^ 30\<close>.
\<close>

lemma drift_run:
  "\<exists>s. run ProfileB binary32_ops drift_events (setup_sketch binary32_ops True) = Some s
       \<and> samples s = [0, 14903537 / 1073741824, 0, 0, 0, 0, 0, 0, 0, 0, 0, 0, 0, 0, 0, 0]
       \<and> total_uSv s = 7451769 / 536870912"
  by (simp add: drift_events_def ctl_eval binary32_ops_def f32_eval replicate_16
      list_update_Cons_numeral)

lemma drift_doses:
  "length (doses ProfileB binary32_ops drift_events (setup_sketch binary32_ops True)) = 17"
  by (simp add: drift_events_def ctl_eval binary32_ops_def f32_eval replicate_16
      list_update_Cons_numeral)

lemma steady_run:
  "\<exists>s. run ProfileB binary32_ops steady_events (setup_sketch binary32_ops True) = Some s
       \<and> samples s = [0, 14903537 / 1073741824, 0, 0, 0, 0, 0, 0, 0, 0, 0, 0, 0, 0, 0, 0]
       \<and> total_uSv s = 14903537 / 1073741824"
  by (simp add: steady_events_def ctl_eval binary32_ops_def f32_eval replicate_16
      list_update_Cons_numeral)

theorem sample_window_witness:
  "(\<lambda>x. x) (f_lit binary32_ops 0) = (0 :: rat)
   \<and> (\<exists>s. run ProfileB binary32_ops steady_events (setup_sketch binary32_ops True) = Some s
          \<and> total_uSv s = sum_list (samples s)
          \<and> rounding_error (\<lambda>x. x) ProfileB binary32_ops steady_events
               (setup_sketch binary32_ops True) = 0)
   \<and> (\<exists>s. run ProfileB binary32_ops drift_events (setup_sketch binary32_ops True) = Some s
          \<and> sampleIndex s = 1
          \<and> samples s = [0, 14903537 / 1073741824, 0, 0, 0, 0, 0, 0, 0, 0, 0, 0, 0, 0, 0, 0]
          \<and> total_uSv s = sum_list (samples s) + 1 / 1073741824
          \<and> rounding_error (\<lambda>x. x) ProfileB binary32_ops drift_events
               (setup_sketch binary32_ops True) = 1 / 1073741824)"
proof -
  let ?s0 = "setup_sketch binary32_ops True"
  have h: "(\<lambda>x. x) (f_lit binary32_ops 0) = (0 :: rat)"
    by (simp add: binary32_ops_def round32_def)
  from sample_window [of ProfileB binary32_ops steady_events True "\<lambda>x. x"] h
  obtain s where s: "run ProfileB binary32_ops steady_events ?s0 = Some s"
    "total_uSv s = sum_list (map (\<lambda>x. x) (samples s))
       + rounding_error (\<lambda>x. x) ProfileB binary32_ops steady_events ?s0"
    by blast
  from steady_run s(1)
  have sv: "samples s = [0, 14903537 / 1073741824, 0, 0, 0, 0, 0, 0, 0, 0, 0, 0, 0, 0, 0, 0]"
    "total_uSv s = 14903537 / 1073741824"
    by auto
  have se: "rounding_error (\<lambda>x. x) ProfileB binary32_ops steady_events ?s0 = 0"
    using s(2) unfolding sv by simp
  have st: "total_uSv s = sum_list (samples s)"
    unfolding sv by simp
  from sample_window [of ProfileB binary32_ops drift_events True "\<lambda>x. x"] h
  obtain d where d: "run ProfileB binary32_ops drift_events ?s0 = Some d"
    "sampleIndex d = int (length (doses ProfileB binary32_ops drift_events ?s0) mod 16)"
    "total_uSv d = sum_list (map (\<lambda>x. x) (samples d))
       + rounding_error (\<lambda>x. x) ProfileB binary32_ops drift_events ?s0"
    by blast
  from drift_run d(1)
  have dv: "samples d = [0, 14903537 / 1073741824, 0, 0, 0, 0, 0, 0, 0, 0, 0, 0, 0, 0, 0, 0]"
    "total_uSv d = 7451769 / 536870912"
    by auto
  have di: "sampleIndex d = 1"
    using d(2) by (simp add: drift_doses)
  have de: "rounding_error (\<lambda>x. x) ProfileB binary32_ops drift_events ?s0 = 1 / 1073741824"
    using d(3) unfolding dv by simp
  have dt: "total_uSv d = sum_list (samples d) + 1 / 1073741824"
    unfolding dv by simp
  show ?thesis
    using h s(1) st se d(1) di dv(1) dt de by blast
qed

theorem running_sum_drifts:
  "length (doses ProfileB binary32_ops drift_events (setup_sketch binary32_ops True)) = 17
   \<and> samples (the (run ProfileB binary32_ops drift_events (setup_sketch binary32_ops True)))
       = [0, 14903537 / 1073741824, 0, 0, 0, 0, 0, 0, 0, 0, 0, 0, 0, 0, 0, 0]
   \<and> total_uSv (the (run ProfileB binary32_ops drift_events (setup_sketch binary32_ops True)))
       = 7451769 / 536870912
   \<and> total_uSv (the (run ProfileB binary32_ops drift_events (setup_sketch binary32_ops True)))
       \<noteq> sum_list (samples (the (run ProfileB binary32_ops drift_events
             (setup_sketch binary32_ops True))))
   \<and> total_uSv (the (run ProfileB binary32_ops drift_events (setup_sketch binary32_ops True)))
       \<noteq> foldl (f_add binary32_ops) (f_lit binary32_ops 0)
             (samples (the (run ProfileB binary32_ops drift_events
               (setup_sketch binary32_ops True))))"
proof -
  from drift_run obtain s where
    s: "run ProfileB binary32_ops drift_events (setup_sketch binary32_ops True) = Some s"
    "samples s = [0, 14903537 / 1073741824, 0, 0, 0, 0, 0, 0, 0, 0, 0, 0, 0, 0, 0, 0]"
    "total_uSv s = 7451769 / 536870912"
    by blast
  have f: "foldl (f_add binary32_ops) (f_lit binary32_ops 0)
            [0, 14903537 / 1073741824, 0, 0, 0, 0, 0, 0, 0, 0, 0, 0, 0, 0, 0, 0]
           = 14903537 / 1073741824"
    by (simp add: binary32_ops_def f32_eval)
  have t: "the (run ProfileB binary32_ops drift_events (setup_sketch binary32_ops True)) = s"
    using s(1) by simp
  show ?thesis
    unfolding t s(2) s(3) f using drift_doses by simp
qed

end
